theory Spec2Isabelle
  imports Complex_Main "HOL-Library.Log_Nat"
begin

section \<open>Values of the program\<close>

text \<open>
  The program is the class \<open>YouTubeAnalyzer\<close> of \<open>youtube_analysis.py\<close>. A cell of
  the table read from the CSV file is missing (\<open>None\<close>, \<open>NaN\<close>), an integer, a float or a
  string. Python integers are unbounded (\<open>int\<close>); the cells of an int64 column are
  integers from \<open>-2^63\<close> to \<open>2^63 - 1\<close>. A finite float is the rational it denotes, the
  two infinities are cells of their own, and \<open>NaN\<close> is the missing cell, which is how
  \<open>pd.isna\<close> and \<open>fillna\<close> read it. A string is a list of 8-bit characters: the code
  points below 256 of Python's \<open>str\<close>.
\<close>

datatype cell = CNull | CInt int | CFloat rat | CPosInf | CNegInf | CStr string

datatype error =
  ValueError string | TypeError string | IndexError string | KeyError string | OverflowError string

subsection \<open>Python's string and integer primitives\<close>

text \<open>\<open>str.isspace\<close> on one character, for the code points below 256.\<close>

definition is_space :: "char \<Rightarrow> bool" where
  "is_space c =
     (let n = (of_char c :: nat)
      in (9 \<le> n \<and> n \<le> 13) \<or> (28 \<le> n \<and> n \<le> 32) \<or> n = 133 \<or> n = 160)"

text \<open>\<open>str.strip()\<close>: whitespace is removed at both ends.\<close>

definition strip :: "string \<Rightarrow> string" where
  "strip s = rev (dropWhile is_space (rev (dropWhile is_space s)))"

text \<open>\<open>str.lower()\<close> on one character, for the code points below 256.\<close>

definition lower_char :: "char \<Rightarrow> char" where
  "lower_char c =
     (let n = (of_char c :: nat)
      in if (65 \<le> n \<and> n \<le> 90) \<or> (192 \<le> n \<and> n \<le> 222 \<and> n \<noteq> 215)
         then char_of (n + 32) else c)"

definition lower :: "string \<Rightarrow> string" where
  "lower s = map lower_char s"

text \<open>\<open>s.split(sep)\<close> for a separator of one character: never an empty list.\<close>

fun split_on :: "char \<Rightarrow> string \<Rightarrow> string list" where
  "split_on sep [] = [[]]"
| "split_on sep (c # cs) =
     (if c = sep then [] # split_on sep cs
      else (case split_on sep cs of
              [] \<Rightarrow> [[c]]
            | p # ps \<Rightarrow> (c # p) # ps))"

definition is_digit :: "char \<Rightarrow> bool" where
  "is_digit c = (let n = (of_char c :: nat) in 48 \<le> n \<and> n \<le> 57)"

definition digit_val :: "char \<Rightarrow> nat" where
  "digit_val c = of_char c - 48"

text \<open>The value of a run of decimal digits, read from the left with an accumulator.\<close>

fun digits_val :: "nat \<Rightarrow> string \<Rightarrow> nat" where
  "digits_val acc [] = acc"
| "digits_val acc (c # cs) = digits_val (acc * 10 + digit_val c) cs"

text \<open>
  The digit part of an integer literal, after a first digit has been read: digits, with
  single underscores allowed between two digits. \<open>None\<close> is Python's \<open>ValueError\<close>.
\<close>

fun digits_from :: "nat \<Rightarrow> string \<Rightarrow> nat option" where
  "digits_from acc [] = Some acc"
| "digits_from acc (c # cs) =
     (if is_digit c then digits_from (acc * 10 + digit_val c) cs
      else if c = CHR ''_'' then
        (case cs of
           [] \<Rightarrow> None
         | d # ds \<Rightarrow> if is_digit d then digits_from (acc * 10 + digit_val d) ds else None)
      else None)"

definition py_digits :: "string \<Rightarrow> nat option" where
  "py_digits s =
     (case s of
        [] \<Rightarrow> None
      | c # cs \<Rightarrow> if is_digit c then digits_from (digit_val c) cs else None)"

text \<open>
  The whitespace \<open>int\<close> skips around a literal: the ASCII whitespace of C, and the
  whitespace beyond ASCII. The separators 0x1C to 0x1F, which \<open>strip\<close> removes, are not
  skipped.
\<close>

definition is_int_space :: "char \<Rightarrow> bool" where
  "is_int_space c =
     (let n = (of_char c :: nat)
      in (9 \<le> n \<and> n \<le> 13) \<or> n = 32 \<or> n = 133 \<or> n = 160)"

text \<open>
  \<open>int(s)\<close> for a string, base 10: whitespace around the literal is skipped, one sign is
  allowed, then the digit part. \<open>None\<close> is \<open>ValueError\<close>. (The interpreter's limit on
  the number of digits of a literal, 4300 by default, is left out.)
\<close>

definition py_int :: "string \<Rightarrow> int option" where
  "py_int s =
     (case rev (dropWhile is_int_space (rev (dropWhile is_int_space s))) of
        [] \<Rightarrow> None
      | c # cs \<Rightarrow>
          if c = CHR ''-'' then map_option (\<lambda>n. - int n) (py_digits cs)
          else if c = CHR ''+'' then map_option int (py_digits cs)
          else map_option int (py_digits (c # cs)))"

text \<open>
  \<open>int(x)\<close> for a finite float: truncation toward zero. On an infinity \<open>int\<close> raises
  \<open>OverflowError\<close>.
\<close>

definition trunc :: "rat \<Rightarrow> int" where
  "trunc x = (if 0 \<le> x then \<lfloor>x\<rfloor> else \<lceil>x\<rceil>)"

subsection \<open>The regular expression of the duration parser\<close>

text \<open>
  One optional component \<open>(?:(\d+)X)?\<close> of the pattern, tried at the start of \<open>s\<close>: the
  longest run of digits, which must not be empty and must be followed by the letter \<open>x\<close>.
  The group is returned with the rest of the string; where the component does not match
  it matches the empty string and nothing is consumed.
\<close>

definition opt_component :: "char \<Rightarrow> string \<Rightarrow> string option \<times> string" where
  "opt_component x s =
     (let ds = takeWhile is_digit s; rest = dropWhile is_digit s
      in case rest of
           [] \<Rightarrow> (None, s)
         | c # cs \<Rightarrow> if ds \<noteq> [] \<and> c = x then (Some ds, cs) else (None, s))"

text \<open>
  \<open>re.match(r'PT(?:(\d+)H)?(?:(\d+)M)?(?:(\d+)S)?', s)\<close>: the match is anchored at the
  start only, and the result is the three groups.
\<close>

definition re_match_pt :: "string \<Rightarrow> (string option \<times> string option \<times> string option) option" where
  "re_match_pt s =
     (if take 2 s = ''PT'' then
        (let (h, s1) = opt_component CHR ''H'' (drop 2 s);
             (m, s2) = opt_component CHR ''M'' s1;
             (sec, s3) = opt_component CHR ''S'' s2
         in Some (h, m, sec))
      else None)"

text \<open>\<open>int(group or 0)\<close> for a group of the match, which holds digits only.\<close>

definition group_int :: "string option \<Rightarrow> int" where
  "group_int g = (case g of None \<Rightarrow> 0 | Some ds \<Rightarrow> int (digits_val 0 ds))"

section \<open>The duration parser\<close>

text \<open>
  \<open>_parse_duration\<close>. The conversion \<open>int(float(duration_str))\<close> of the last branch
  belongs to the Python runtime and is the parameter \<open>int_of_float_str\<close>, which is
  \<open>None\<close> where \<open>float\<close> or \<open>int\<close> raises; the bare \<open>except\<close> turns that into 0.
  The list comprehension \<open>[int(p) for p in parts]\<close> stands outside every \<open>try\<close>, so
  its \<open>ValueError\<close> leaves the function.
\<close>

definition parse_duration :: "(string \<Rightarrow> int option) \<Rightarrow> cell \<Rightarrow> error + int" where
  "parse_duration int_of_float_str duration =
     (case duration of
        CNull \<Rightarrow> Inr 0
      | CInt n \<Rightarrow> Inr n
      | CFloat x \<Rightarrow> Inr (trunc x)
      | CPosInf \<Rightarrow> Inl (OverflowError ''cannot convert float infinity to integer'')
      | CNegInf \<Rightarrow> Inl (OverflowError ''cannot convert float infinity to integer'')
      | CStr s \<Rightarrow>
          (let duration_str = strip s
           in if CHR '':'' \<in> set duration_str then
                (case those (map py_int (split_on CHR '':'' duration_str)) of
                   None \<Rightarrow> Inl (ValueError ''invalid literal for int() with base 10'')
                 | Some parts \<Rightarrow>
                     if length parts = 3 then
                       Inr (parts ! 0 * 3600 + parts ! 1 * 60 + parts ! 2)
                     else if length parts = 2 then
                       Inr (parts ! 0 * 60 + parts ! 1)
                     else Inr (parts ! 0))
              else
                (case re_match_pt duration_str of
                   Some (h, m, sec) \<Rightarrow>
                     Inr (group_int h * 3600 + group_int m * 60 + group_int sec)
                 | None \<Rightarrow>
                     (case int_of_float_str duration_str of
                        Some n \<Rightarrow> Inr n
                      | None \<Rightarrow> Inr 0))))"

section \<open>The table\<close>

text \<open>
  A \<open>DataFrame\<close> is its columns in order, each a label with the cells of the column. A
  label may occur twice: \<open>rename\<close> does not merge columns. \<open>pd.read_csv\<close> gives
  every column the same number of cells (\<open>rectangular\<close>).
\<close>

type_synonym column = "cell list"

type_synonym dataframe = "(string \<times> column) list"

text \<open>An exception ends a sequence of steps; \<open>and_then\<close> is the next statement.\<close>

definition and_then :: "error + 'a \<Rightarrow> ('a \<Rightarrow> error + 'b) \<Rightarrow> error + 'b" where
  "and_then m f = (case m of Inl e \<Rightarrow> Inl e | Inr x \<Rightarrow> f x)"

definition columns :: "dataframe \<Rightarrow> string list" where
  "columns df = map fst df"

definition nrows :: "dataframe \<Rightarrow> nat" where
  "nrows df = (case df of [] \<Rightarrow> 0 | (c, xs) # rest \<Rightarrow> length xs)"

definition rectangular :: "dataframe \<Rightarrow> bool" where
  "rectangular df = list_all (\<lambda>(c, xs). length xs = nrows df) df"

text \<open>
  \<open>df[name]\<close> is a \<open>Series\<close> where the label occurs once and a \<open>DataFrame\<close> of the
  columns that carry it where it occurs more often; a label that does not occur is a
  \<open>KeyError\<close>.
\<close>

datatype selection = Series column | Frame "column list"

definition occurrences :: "dataframe \<Rightarrow> string \<Rightarrow> column list" where
  "occurrences df name = map snd (filter (\<lambda>(c, xs). c = name) df)"

definition getitem :: "dataframe \<Rightarrow> string \<Rightarrow> error + selection" where
  "getitem df name =
     (case occurrences df name of
        [] \<Rightarrow> Inl (KeyError name)
      | [xs] \<Rightarrow> Inr (Series xs)
      | xs # ys # xss \<Rightarrow> Inr (Frame (xs # ys # xss)))"

text \<open>
  \<open>df[name] = values\<close> replaces the column where the label is there and appends a new
  column where it is not.
\<close>

definition setitem :: "string \<Rightarrow> column \<Rightarrow> dataframe \<Rightarrow> dataframe" where
  "setitem name xs df =
     (if name \<in> set (columns df)
      then map (\<lambda>(c, ys). if c = name then (c, xs) else (c, ys)) df
      else df @ [(name, xs)])"

text \<open>A \<open>Series\<close> is needed where the program computes with a column.\<close>

definition get_series :: "dataframe \<Rightarrow> string \<Rightarrow> error + column" where
  "get_series df name =
     and_then (getitem df name) (\<lambda>sel.
       case sel of
         Series xs \<Rightarrow> Inr xs
       | Frame xss \<Rightarrow> Inl (ValueError ''a DataFrame where a Series is expected''))"

text \<open>\<open>df[keep]\<close> for a boolean \<open>Series\<close>: the rows where it is true, in every column.\<close>

definition take_rows :: "bool list \<Rightarrow> 'a list \<Rightarrow> 'a list" where
  "take_rows keep xs = map snd (filter fst (zip keep xs))"

definition select_rows :: "bool list \<Rightarrow> dataframe \<Rightarrow> dataframe" where
  "select_rows keep df = map (\<lambda>(c, xs). (c, take_rows keep xs)) df"

subsection \<open>int64 and float64\<close>

text \<open>
  numpy adds and multiplies int64 columns modulo \<open>2^64\<close>.
\<close>

definition wrap64 :: "int \<Rightarrow> int" where
  "wrap64 n = (n + 2 ^ 63) mod 2 ^ 64 - 2 ^ 63"

text \<open>
  A float64 is a rational, \<open>CPosInf\<close>, \<open>CNegInf\<close> or \<open>NaN\<close> (the missing cell). Every
  operation rounds its exact result to the nearest float64, a tie to the even mantissa:
  53 bits of mantissa, the exponents of the normal numbers from -1022 to 1023, the
  subnormal numbers below, and an infinity for a result that rounds to \<open>2^1024\<close> or
  beyond. The sign of a zero is not kept. \<open>exponent x\<close> is the \<open>e\<close> with
  \<open>2^e \<le> |x| < 2^(e+1)\<close>, for \<open>x\<close> other than 0.
\<close>

definition exponent :: "rat \<Rightarrow> int" where
  "exponent x =
     (let (n, d) = quotient_of \<bar>x\<bar>;
          k = bitlen n - bitlen d
      in if 2 powi k \<le> \<bar>x\<bar> then k else k - 1)"

text \<open>\<open>rint\<close>: to the nearest integer, a tie to the even neighbour.\<close>

definition round_half_even :: "rat \<Rightarrow> int" where
  "round_half_even x =
     (let f = \<lfloor>x\<rfloor>; d = x - of_int f
      in if d < 1 / 2 then f
         else if 1 / 2 < d then f + 1
         else if even f then f else f + 1)"

definition round_to_double :: "rat \<Rightarrow> cell" where
  "round_to_double x =
     (if x = 0 then CFloat 0
      else
        (let e = max (exponent x) (- 1022);
             ulp = 2 powi (e - 52);
             m = round_half_even (x / ulp)
         in if 1024 \<le> e \<or> (e = 1023 \<and> 2 ^ 53 \<le> \<bar>m\<bar>)
            then (if 0 < x then CPosInf else CNegInf)
            else CFloat (of_int m * ulp)))"

text \<open>The float64 of a numeric cell: an integer is converted, rounded where it has to be.\<close>

definition to_double :: "cell \<Rightarrow> cell" where
  "to_double c =
     (case c of
        CInt n \<Rightarrow> round_to_double (of_int n)
      | CStr s \<Rightarrow> CNull
      | _ \<Rightarrow> c)"

definition float_add :: "cell \<Rightarrow> cell \<Rightarrow> cell" where
  "float_add a b =
     (case (a, b) of
        (CFloat x, CFloat y) \<Rightarrow> round_to_double (x + y)
      | (CFloat x, CPosInf) \<Rightarrow> CPosInf
      | (CFloat x, CNegInf) \<Rightarrow> CNegInf
      | (CPosInf, CFloat y) \<Rightarrow> CPosInf
      | (CPosInf, CPosInf) \<Rightarrow> CPosInf
      | (CNegInf, CFloat y) \<Rightarrow> CNegInf
      | (CNegInf, CNegInf) \<Rightarrow> CNegInf
      | _ \<Rightarrow> CNull)"

definition float_mul :: "cell \<Rightarrow> cell \<Rightarrow> cell" where
  "float_mul a b =
     (case (a, b) of
        (CFloat x, CFloat y) \<Rightarrow> round_to_double (x * y)
      | (CFloat x, CPosInf) \<Rightarrow> if x = 0 then CNull else if 0 < x then CPosInf else CNegInf
      | (CFloat x, CNegInf) \<Rightarrow> if x = 0 then CNull else if 0 < x then CNegInf else CPosInf
      | (CPosInf, CFloat y) \<Rightarrow> if y = 0 then CNull else if 0 < y then CPosInf else CNegInf
      | (CNegInf, CFloat y) \<Rightarrow> if y = 0 then CNull else if 0 < y then CNegInf else CPosInf
      | (CPosInf, CPosInf) \<Rightarrow> CPosInf
      | (CPosInf, CNegInf) \<Rightarrow> CNegInf
      | (CNegInf, CPosInf) \<Rightarrow> CNegInf
      | (CNegInf, CNegInf) \<Rightarrow> CPosInf
      | _ \<Rightarrow> CNull)"

definition float_div :: "cell \<Rightarrow> cell \<Rightarrow> cell" where
  "float_div a b =
     (case (a, b) of
        (CFloat x, CFloat y) \<Rightarrow>
          if y = 0 then (if x = 0 then CNull else if 0 < x then CPosInf else CNegInf)
          else round_to_double (x / y)
      | (CFloat x, CPosInf) \<Rightarrow> CFloat 0
      | (CFloat x, CNegInf) \<Rightarrow> CFloat 0
      | (CPosInf, CFloat y) \<Rightarrow> if 0 \<le> y then CPosInf else CNegInf
      | (CNegInf, CFloat y) \<Rightarrow> if 0 \<le> y then CNegInf else CPosInf
      | _ \<Rightarrow> CNull)"

definition rint :: "cell \<Rightarrow> cell" where
  "rint c = (case c of CFloat x \<Rightarrow> CFloat (of_int (round_half_even x)) | _ \<Rightarrow> c)"

subsection \<open>Arithmetic on cells\<close>

text \<open>
  The finite number in a cell, if there is one.
\<close>

definition num :: "cell \<Rightarrow> rat option" where
  "num c = (case c of CInt n \<Rightarrow> Some (of_int n) | CFloat x \<Rightarrow> Some x | _ \<Rightarrow> None)"

definition cell_gt :: "cell \<Rightarrow> rat \<Rightarrow> bool" where
  "cell_gt c k =
     (case c of
        CPosInf \<Rightarrow> True
      | _ \<Rightarrow> (case num c of Some x \<Rightarrow> k < x | None \<Rightarrow> False))"

text \<open>
  The operators of numpy on the cells of numeric columns: two int64 give an int64 for
  \<open>+\<close> and \<open>*\<close>, every other pair is computed in float64, and \<open>/\<close> is always a
  float64 division, where a division by zero is an infinity or \<open>NaN\<close>.
\<close>

definition cell_add :: "cell \<Rightarrow> cell \<Rightarrow> cell" where
  "cell_add a b =
     (case (a, b) of
        (CInt x, CInt y) \<Rightarrow> CInt (wrap64 (x + y))
      | _ \<Rightarrow> float_add (to_double a) (to_double b))"

definition cell_div :: "cell \<Rightarrow> cell \<Rightarrow> cell" where
  "cell_div a b = float_div (to_double a) (to_double b)"

definition cell_mul :: "cell \<Rightarrow> cell \<Rightarrow> cell" where
  "cell_mul a b =
     (case (a, b) of
        (CInt x, CInt y) \<Rightarrow> CInt (wrap64 (x * y))
      | _ \<Rightarrow> float_mul (to_double a) (to_double b))"

text \<open>
  \<open>round(2)\<close> of a float64 column, as numpy computes it: the product with 100.0,
  \<open>rint\<close>, the quotient by 100.0. \<open>round(0)\<close> is \<open>rint\<close>. An int64 is left as it is.
\<close>

definition cell_round2 :: "cell \<Rightarrow> cell" where
  "cell_round2 c =
     (case c of
        CInt n \<Rightarrow> c
      | CStr s \<Rightarrow> c
      | _ \<Rightarrow> float_div (rint (float_mul c (CFloat 100))) (CFloat 100))"

definition cell_round0 :: "cell \<Rightarrow> cell" where
  "cell_round0 c = (case c of CFloat x \<Rightarrow> rint c | _ \<Rightarrow> c)"

section \<open>Loading the data\<close>

subsection \<open>Column names\<close>

text \<open>The chain of \<open>if\<close> and \<open>elif\<close> in the loop over \<open>df.columns\<close>.\<close>

definition canonical_name :: "string \<Rightarrow> string option" where
  "canonical_name col =
     (let col_lower = strip (lower col)
      in if col_lower \<in> set [''title''] then Some ''title''
         else if col_lower \<in> set [''category'', ''channel_title'', ''channeltitle'']
           then Some ''category''
         else if col_lower \<in> set [''views'', ''view_count'', ''viewcount'']
           then Some ''views''
         else if col_lower \<in> set [''likes'', ''like_count'', ''likecount'']
           then Some ''likes''
         else if col_lower \<in> set [''comments'', ''comment_count'', ''commentcount'']
           then Some ''comments''
         else if col_lower \<in> set [''duration'', ''video_length'', ''length'']
           then Some ''duration''
         else if col_lower \<in> set [''subscribers'', ''subscriber_count'']
           then Some ''subscribers''
         else None)"

text \<open>The dictionary \<open>column_mapping\<close>, filled by the loop from left to right.\<close>

definition column_mapping :: "string list \<Rightarrow> (string \<rightharpoonup> string)" where
  "column_mapping cols =
     fold (\<lambda>col m. case canonical_name col of Some c \<Rightarrow> m(col \<mapsto> c) | None \<Rightarrow> m)
       cols Map.empty"

text \<open>
  \<open>df.rename(columns=column_mapping)\<close>: a label that is a key of the dictionary is
  replaced, every other label and every column stays.
\<close>

definition rename_columns :: "(string \<rightharpoonup> string) \<Rightarrow> dataframe \<Rightarrow> dataframe" where
  "rename_columns m df = map (\<lambda>(c, xs). (case m c of Some c' \<Rightarrow> c' | None \<Rightarrow> c, xs)) df"

definition required_cols :: "string list" where
  "required_cols = [''title'', ''category'', ''views'', ''likes'', ''comments'', ''duration'']"

text \<open>The body of the loop over \<open>required_cols\<close>: a scalar fills a column of the table's height.\<close>

definition ensure_column :: "string \<Rightarrow> dataframe \<Rightarrow> dataframe" where
  "ensure_column col df =
     (if col \<notin> set (columns df) then
        (if col = ''category''
         then setitem ''category'' (replicate (nrows df) (CStr ''Unknown'')) df
         else setitem col (replicate (nrows df) (CInt 0)) df)
      else df)"

definition normalize_schema :: "dataframe \<Rightarrow> dataframe" where
  "normalize_schema df =
     fold ensure_column required_cols (rename_columns (column_mapping (columns df)) df)"

subsection \<open>Numeric columns\<close>

text \<open>
  Modelled from the spec: \<open>pd.to_numeric(..., errors='coerce')\<close>, \<open>fillna\<close> and
  \<open>astype(int)\<close> are pandas, not code of the repository. Each raw value is parsed as a
  number and a value that does not parse is \<open>NaN\<close>. How pandas reads a number in a
  string is the parameter \<open>num_of_str\<close>, which gives the integer, the float or the
  infinity it read, and \<open>None\<close> where it read no number. The column that results is an
  integer column where every value is an integer and all of them fit int64, or all of
  them fit uint64; it is a float64 column otherwise, the integers converted.
  \<open>pd.to_numeric\<close> refuses a \<open>DataFrame\<close>, which is what \<open>df[name]\<close> is when two
  columns carry the label.
\<close>

definition parse_numeric :: "(string \<Rightarrow> cell option) \<Rightarrow> cell \<Rightarrow> cell" where
  "parse_numeric num_of_str c =
     (case c of
        CStr s \<Rightarrow>
          (case num_of_str s of
             None \<Rightarrow> CNull
           | Some v \<Rightarrow> (case v of CStr t \<Rightarrow> CNull | _ \<Rightarrow> v))
      | _ \<Rightarrow> c)"

definition in_int64 :: "int \<Rightarrow> bool" where
  "in_int64 n = (- (2 ^ 63) \<le> n \<and> n < 2 ^ 63)"

definition is_int64 :: "cell \<Rightarrow> bool" where
  "is_int64 c = (case c of CInt n \<Rightarrow> in_int64 n | _ \<Rightarrow> False)"

definition is_uint64 :: "cell \<Rightarrow> bool" where
  "is_uint64 c = (case c of CInt n \<Rightarrow> 0 \<le> n \<and> n < 2 ^ 64 | _ \<Rightarrow> False)"

definition to_numeric :: "(string \<Rightarrow> cell option) \<Rightarrow> selection \<Rightarrow> error + column" where
  "to_numeric num_of_str arg =
     (case arg of
        Frame xss \<Rightarrow> Inl (TypeError ''arg must be a list, tuple, 1-d array, or Series'')
      | Series xs \<Rightarrow>
          (let ys = map (parse_numeric num_of_str) xs
           in if list_all is_int64 ys \<or> list_all is_uint64 ys then Inr ys
              else Inr (map to_double ys)))"

text \<open>\<open>fillna(v)\<close>: the value, as a float64, in place of every \<open>NaN\<close>.\<close>

definition fillna :: "cell \<Rightarrow> column \<Rightarrow> column" where
  "fillna v xs = map (\<lambda>c. if c = CNull then to_double v else c) xs"

text \<open>
  \<open>astype(int)\<close>. pandas raises \<open>IntCastingNaNError\<close>, a \<open>ValueError\<close>, where a float
  column holds \<open>NaN\<close> or an infinity. A finite float is truncated toward zero; one
  beyond int64 is cast to \<open>-2^63\<close>, which is what the conversion gives on x86-64. An
  integer column is cast modulo \<open>2^64\<close>.
\<close>

definition non_finite :: "cell \<Rightarrow> bool" where
  "non_finite c = (c = CNull \<or> c = CPosInf \<or> c = CNegInf)"

definition int64_of :: "cell \<Rightarrow> cell" where
  "int64_of c =
     (case c of
        CInt n \<Rightarrow> CInt (wrap64 n)
      | CFloat x \<Rightarrow> CInt (if in_int64 (trunc x) then trunc x else - (2 ^ 63))
      | _ \<Rightarrow> c)"

definition astype_int :: "column \<Rightarrow> error + column" where
  "astype_int xs =
     (if list_ex non_finite xs
      then Inl (ValueError ''Cannot convert non-finite values (NA or inf) to integer'')
      else Inr (map int64_of xs))"

text \<open>\<open>df[name] = pd.to_numeric(df[name], errors='coerce').fillna(0).astype(int)\<close>.\<close>

definition coerce_count :: "(string \<Rightarrow> cell option) \<Rightarrow> string \<Rightarrow> dataframe \<Rightarrow> error + dataframe" where
  "coerce_count num_of_str name df =
     and_then (getitem df name) (\<lambda>sel.
     and_then (to_numeric num_of_str sel) (\<lambda>nums.
     and_then (astype_int (fillna (CInt 0) nums)) (\<lambda>ints.
       Inr (setitem name ints df))))"

subsection \<open>Durations\<close>

text \<open>\<open>Series.apply\<close>: the function is called on each cell in turn; the first exception ends it.\<close>

fun apply_series :: "(cell \<Rightarrow> error + int) \<Rightarrow> column \<Rightarrow> error + column" where
  "apply_series f [] = Inr []"
| "apply_series f (x # xs) =
     and_then (f x) (\<lambda>n. and_then (apply_series f xs) (\<lambda>ys. Inr (CInt n # ys)))"

text \<open>
  \<open>df['duration'] = df['duration'].apply(self._parse_duration)\<close>. On a \<open>DataFrame\<close> (two
  duration columns) the parser is given whole columns and \<open>if pd.isna(duration)\<close> raises.
\<close>

definition parse_durations :: "(string \<Rightarrow> int option) \<Rightarrow> dataframe \<Rightarrow> error + dataframe" where
  "parse_durations int_of_float_str df =
     and_then (getitem df ''duration'') (\<lambda>sel.
       case sel of
         Frame xss \<Rightarrow> Inl (ValueError ''The truth value of a Series is ambiguous'')
       | Series xs \<Rightarrow>
           and_then (apply_series (parse_duration int_of_float_str) xs) (\<lambda>ys.
             Inr (setitem ''duration'' ys df)))"

subsection \<open>The filter and the calculated fields\<close>

text \<open>\<open>df = df[df['views'] > 0]\<close>.\<close>

definition filter_views :: "dataframe \<Rightarrow> error + dataframe" where
  "filter_views df =
     and_then (get_series df ''views'') (\<lambda>views.
       Inr (select_rows (map (\<lambda>v. cell_gt v 0) views) df))"

text \<open>\<open>df['engagement_rate'] = ((df['likes'] + df['comments']) / df['views'] * 100).round(2)\<close>.\<close>

definition add_engagement_rate :: "dataframe \<Rightarrow> error + dataframe" where
  "add_engagement_rate df =
     and_then (get_series df ''likes'') (\<lambda>likes.
     and_then (get_series df ''comments'') (\<lambda>comments.
     and_then (get_series df ''views'') (\<lambda>views.
       Inr (setitem ''engagement_rate''
              (map (\<lambda>(l, c, v). cell_round2 (cell_mul (cell_div (cell_add l c) v) (CInt 100)))
                 (zip likes (zip comments views))) df))))"

text \<open>\<open>df['duration_minutes'] = (df['duration'] / 60).round(2)\<close>.\<close>

definition add_duration_minutes :: "dataframe \<Rightarrow> error + dataframe" where
  "add_duration_minutes df =
     and_then (get_series df ''duration'') (\<lambda>duration.
       Inr (setitem ''duration_minutes''
              (map (\<lambda>d. cell_round2 (cell_div d (CInt 60))) duration) df))"

text \<open>
  \<open>pd.cut(x, bins, labels)\<close> with its defaults (\<open>right=True\<close>, \<open>include_lowest=False\<close>):
  the label of the first interval \<open>(lo, hi]\<close> of neighbouring bin edges that holds the
  value, and a missing cell where no interval does. An edge is a number or
  \<open>float('inf')\<close>.
\<close>

datatype bound = Finite rat | Infinity

definition above :: "bound \<Rightarrow> rat \<Rightarrow> bool" where
  "above b x = (case b of Finite y \<Rightarrow> y < x | Infinity \<Rightarrow> False)"

definition below_eq :: "rat \<Rightarrow> bound \<Rightarrow> bool" where
  "below_eq x b = (case b of Finite y \<Rightarrow> x \<le> y | Infinity \<Rightarrow> True)"

fun cut_value :: "bound list \<Rightarrow> string list \<Rightarrow> rat \<Rightarrow> cell" where
  "cut_value (lo # hi # bins) (l # labels) x =
     (if above lo x \<and> below_eq x hi then CStr l else cut_value (hi # bins) labels x)"
| "cut_value bins labels x = CNull"

definition pd_cut :: "column \<Rightarrow> bound list \<Rightarrow> string list \<Rightarrow> column" where
  "pd_cut xs bins labels =
     map (\<lambda>c. case num c of None \<Rightarrow> CNull | Some x \<Rightarrow> cut_value bins labels x) xs"

definition length_bins :: "bound list" where
  "length_bins = [Finite 0, Finite 5, Finite 15, Finite 30, Infinity]"

definition length_labels :: "string list" where
  "length_labels =
     [''Short (0-5 min)'', ''Medium (5-15 min)'', ''Long (15-30 min)'', ''Very Long (30+ min)'']"

definition add_length_category :: "dataframe \<Rightarrow> error + dataframe" where
  "add_length_category df =
     and_then (get_series df ''duration_minutes'') (\<lambda>minutes.
       Inr (setitem ''length_category'' (pd_cut minutes length_bins length_labels) df))"

subsection \<open>The body of \<open>load_data\<close> after the file is read\<close>

text \<open>The block "Clean and convert data types".\<close>

definition coerce_frame ::
  "(string \<Rightarrow> int option) \<Rightarrow> (string \<Rightarrow> cell option) \<Rightarrow> dataframe \<Rightarrow> error + dataframe" where
  "coerce_frame int_of_float_str num_of_str df =
     and_then (coerce_count num_of_str ''views'' df) (\<lambda>df.
     and_then (coerce_count num_of_str ''likes'' df) (\<lambda>df.
     and_then (coerce_count num_of_str ''comments'' df) (\<lambda>df.
       parse_durations int_of_float_str df)))"

text \<open>The blocks "Add calculated fields" and "Categorize by length".\<close>

definition add_calculated_fields :: "dataframe \<Rightarrow> error + dataframe" where
  "add_calculated_fields df =
     and_then (add_engagement_rate df) (\<lambda>df.
     and_then (add_duration_minutes df) (\<lambda>df.
       add_length_category df))"

definition load_frame ::
  "(string \<Rightarrow> int option) \<Rightarrow> (string \<Rightarrow> cell option) \<Rightarrow> dataframe \<Rightarrow> error + dataframe" where
  "load_frame int_of_float_str num_of_str df =
     and_then (coerce_frame int_of_float_str num_of_str (normalize_schema df)) (\<lambda>df.
     and_then (filter_views df) (\<lambda>df.
       add_calculated_fields df))"

section \<open>Aggregation\<close>

text \<open>
  A statistics table is its rows in order: the group's key and the eight columns the
  program names. \<open>count\<close> counts the cells that are not missing, \<open>sum\<close> and \<open>mean\<close>
  skip missing cells, and \<open>round(0)\<close> rounds the float columns.
\<close>

record stat_row =
  video_count :: cell
  total_views :: cell
  avg_views :: cell
  total_likes :: cell
  avg_likes :: cell
  total_comments :: cell
  avg_comments :: cell
  avg_engagement_rate :: cell

type_synonym stats = "(cell \<times> stat_row) list"

definition series_count :: "column \<Rightarrow> cell" where
  "series_count xs = CInt (int (length (filter (\<lambda>c. c \<noteq> CNull) xs)))"

definition series_sum :: "column \<Rightarrow> cell" where
  "series_sum xs = foldl cell_add (CInt 0) (filter (\<lambda>c. c \<noteq> CNull) xs)"

definition series_mean :: "column \<Rightarrow> cell" where
  "series_mean xs = cell_div (series_sum xs) (series_count xs)"

definition aggregate :: "dataframe \<Rightarrow> error + stat_row" where
  "aggregate g =
     and_then (get_series g ''title'') (\<lambda>title.
     and_then (get_series g ''views'') (\<lambda>views.
     and_then (get_series g ''likes'') (\<lambda>likes.
     and_then (get_series g ''comments'') (\<lambda>comments.
     and_then (get_series g ''engagement_rate'') (\<lambda>rate.
       Inr \<lparr>video_count = cell_round0 (series_count title),
            total_views = cell_round0 (series_sum views),
            avg_views = cell_round0 (series_mean views),
            total_likes = cell_round0 (series_sum likes),
            avg_likes = cell_round0 (series_mean likes),
            total_comments = cell_round0 (series_sum comments),
            avg_comments = cell_round0 (series_mean comments),
            avg_engagement_rate = cell_round0 (series_mean rate)\<rparr>)))))"

fun collect :: "(error + 'a) list \<Rightarrow> error + 'a list" where
  "collect [] = Inr []"
| "collect (r # rs) = and_then r (\<lambda>x. and_then (collect rs) (\<lambda>xs. Inr (x # xs)))"

text \<open>One row for each key: the aggregate of the rows of the table that carry the key.\<close>

definition agg_groups :: "column \<Rightarrow> cell list \<Rightarrow> dataframe \<Rightarrow> error + stats" where
  "agg_groups keycol keys df =
     collect (map (\<lambda>k. and_then (aggregate (select_rows (map (\<lambda>c. c = k) keycol) df))
                          (\<lambda>row. Inr (k, row))) keys)"

text \<open>
  The order of keys and of values: strings by code point, numbers by value, a number
  before a string. Sorting is by insertion and stable: rows that tie stay in the order
  they had, which for \<open>sort_values\<close> is the order of the groups.
\<close>

fun str_less :: "string \<Rightarrow> string \<Rightarrow> bool" where
  "str_less [] [] = False"
| "str_less [] (d # ds) = True"
| "str_less (c # cs) [] = False"
| "str_less (c # cs) (d # ds) =
     ((of_char c :: nat) < of_char d \<or> (c = d \<and> str_less cs ds))"

definition key_less :: "cell \<Rightarrow> cell \<Rightarrow> bool" where
  "key_less a b =
     (case (a, b) of
        (CStr s, CStr t) \<Rightarrow> str_less s t
      | (CStr s, _) \<Rightarrow> False
      | (_, CStr t) \<Rightarrow> num a \<noteq> None
      | _ \<Rightarrow> (case (num a, num b) of (Some x, Some y) \<Rightarrow> x < y | _ \<Rightarrow> False))"

fun insert_by :: "('a \<Rightarrow> 'a \<Rightarrow> bool) \<Rightarrow> 'a \<Rightarrow> 'a list \<Rightarrow> 'a list" where
  "insert_by lt x [] = [x]"
| "insert_by lt x (y # ys) = (if lt y x then y # insert_by lt x ys else x # y # ys)"

definition sort_by :: "('a \<Rightarrow> 'a \<Rightarrow> bool) \<Rightarrow> 'a list \<Rightarrow> 'a list" where
  "sort_by lt xs = foldr (insert_by lt) xs []"

text \<open>\<open>groupby\<close> leaves rows with a missing key out and sorts the keys.\<close>

definition sorted_keys :: "column \<Rightarrow> cell list" where
  "sorted_keys keycol = sort_by key_less (remdups (filter (\<lambda>c. c \<noteq> CNull) keycol))"

text \<open>
  \<open>groupby(..., observed=True)\<close> on the categorical column: the categories that occur,
  in the order of the categories.
\<close>

definition observed_categories :: "column \<Rightarrow> string list \<Rightarrow> cell list" where
  "observed_categories keycol labels = map CStr (filter (\<lambda>l. CStr l \<in> set keycol) labels)"

text \<open>The table of \<open>analyze_by_category\<close>, sorted by average views, the largest first.\<close>

definition category_table :: "dataframe \<Rightarrow> error + stats" where
  "category_table df =
     and_then (get_series df ''category'') (\<lambda>keycol.
     and_then (agg_groups keycol (sorted_keys keycol) df) (\<lambda>table.
       Inr (sort_by (\<lambda>a b. key_less (avg_views (snd b)) (avg_views (snd a))) table)))"

text \<open>The table of \<open>analyze_by_length\<close>.\<close>

definition length_table :: "dataframe \<Rightarrow> error + stats" where
  "length_table df =
     and_then (get_series df ''length_category'') (\<lambda>keycol.
       agg_groups keycol (observed_categories keycol length_labels) df)"

section \<open>The analyzer\<close>

text \<open>
  The object's attributes are the state. A method takes the state and returns the
  exception it raised, if any, with the state it leaves; a method that returns returns
  \<open>self\<close>. What a method prints is not part of the state and is left out.
\<close>

record analyzer =
  data :: "dataframe option"
  category_stats :: "stats option"
  length_stats :: "stats option"
  csv_file :: string

definition init :: "string \<Rightarrow> analyzer" where
  "init path = \<lparr>data = None, category_stats = None, length_stats = None, csv_file = path\<rparr>"

text \<open>
  What the program takes from outside: the file system behind \<open>pd.read_csv\<close>, the two
  number parsers, and matplotlib, which draws a table or raises.
\<close>

record runtime =
  read_csv :: "string \<Rightarrow> error + dataframe"
  int_of_float_str :: "string \<Rightarrow> int option"
  num_of_str :: "string \<Rightarrow> cell option"
  render :: "stats \<Rightarrow> error option"

definition load_data :: "runtime \<Rightarrow> analyzer \<Rightarrow> error option \<times> analyzer" where
  "load_data rt self =
     (case and_then (read_csv rt (csv_file self))
             (load_frame (int_of_float_str rt) (num_of_str rt)) of
        Inl e \<Rightarrow> (Some e, self)
      | Inr df \<Rightarrow> (None, self\<lparr>data := Some df\<rparr>))"

definition analyze_by_category :: "analyzer \<Rightarrow> error option \<times> analyzer" where
  "analyze_by_category self =
     (case data self of
        None \<Rightarrow> (Some (ValueError ''Data not loaded. Call load_data() first.''), self)
      | Some df \<Rightarrow>
          (case category_table df of
             Inl e \<Rightarrow> (Some e, self)
           | Inr table \<Rightarrow> (None, self\<lparr>category_stats := Some table\<rparr>)))"

definition analyze_by_length :: "analyzer \<Rightarrow> error option \<times> analyzer" where
  "analyze_by_length self =
     (case data self of
        None \<Rightarrow> (Some (ValueError ''Data not loaded. Call load_data() first.''), self)
      | Some df \<Rightarrow>
          (case length_table df of
             Inl e \<Rightarrow> (Some e, self)
           | Inr table \<Rightarrow> (None, self\<lparr>length_stats := Some table\<rparr>)))"

definition display_summary :: "analyzer \<Rightarrow> error option \<times> analyzer" where
  "display_summary self =
     (case data self of
        None \<Rightarrow> (Some (ValueError ''Data not loaded. Call load_data() first.''), self)
      | Some df \<Rightarrow> (None, self))"

definition plot_category_performance :: "runtime \<Rightarrow> analyzer \<Rightarrow> error option \<times> analyzer" where
  "plot_category_performance rt self =
     (case category_stats self of
        None \<Rightarrow>
          (Some (ValueError ''Category analysis not done. Call analyze_by_category() first.''),
           self)
      | Some table \<Rightarrow> (render rt table, self))"

definition plot_length_performance :: "runtime \<Rightarrow> analyzer \<Rightarrow> error option \<times> analyzer" where
  "plot_length_performance rt self =
     (case length_stats self of
        None \<Rightarrow>
          (Some (ValueError ''Length analysis not done. Call analyze_by_length() first.''),
           self)
      | Some table \<Rightarrow> (render rt table, self))"

text \<open>\<open>table.index[0]\<close>: an \<open>IndexError\<close> on a table without rows.\<close>

definition first_index :: "stats \<Rightarrow> error + cell" where
  "first_index table =
     (case table of
        [] \<Rightarrow> Inl (IndexError ''index 0 is out of bounds for axis 0 with size 0'')
      | (k, row) # rest \<Rightarrow> Inr k)"

text \<open>
  \<open>table[field].idxmax()\<close>: the key of the first row with the largest value, and a
  \<open>ValueError\<close> on a table without rows.
\<close>

fun arg_max :: "(cell \<times> cell) \<Rightarrow> (cell \<times> cell) list \<Rightarrow> cell" where
  "arg_max (k, v) [] = k"
| "arg_max (k, v) ((k', v') # rest) =
     (if key_less v v' then arg_max (k', v') rest else arg_max (k, v) rest)"

definition idxmax :: "(stat_row \<Rightarrow> cell) \<Rightarrow> stats \<Rightarrow> error + cell" where
  "idxmax field table =
     (case map (\<lambda>(k, row). (k, field row)) table of
        [] \<Rightarrow> Inl (ValueError ''attempt to get argmax of an empty sequence'')
      | kv # rest \<Rightarrow> Inr (arg_max kv rest))"

text \<open>The four keys \<open>generate_insights\<close> looks up, in the order of the source.\<close>

definition insights :: "stats \<Rightarrow> stats \<Rightarrow> error + cell list" where
  "insights cats lens =
     and_then (first_index cats) (\<lambda>top_category.
     and_then (idxmax avg_engagement_rate cats) (\<lambda>top_engagement_cat.
     and_then (idxmax avg_views lens) (\<lambda>best_length.
     and_then (idxmax avg_engagement_rate lens) (\<lambda>best_engagement_length.
       Inr [top_category, top_engagement_cat, best_length, best_engagement_length]))))"

definition generate_insights :: "analyzer \<Rightarrow> error option \<times> analyzer" where
  "generate_insights self =
     (case (category_stats self, length_stats self) of
        (Some cats, Some lens) \<Rightarrow>
          (case insights cats lens of
             Inl e \<Rightarrow> (Some e, self)
           | Inr keys \<Rightarrow> (None, self))
      | _ \<Rightarrow>
          (Some (ValueError
             ''Complete analysis not done. Run analyze_by_category() and analyze_by_length() first.''),
           self))"

text \<open>Method chaining: the next method runs on what the last one returned.\<close>

definition chain ::
  "error option \<times> analyzer \<Rightarrow> (analyzer \<Rightarrow> error option \<times> analyzer) \<Rightarrow> error option \<times> analyzer" where
  "chain r f = (case r of (None, self) \<Rightarrow> f self | (Some e, self) \<Rightarrow> (Some e, self))"

text \<open>The pipeline of the script, started on a file.\<close>

definition run_analysis :: "runtime \<Rightarrow> string \<Rightarrow> error option \<times> analyzer" where
  "run_analysis rt path =
     chain (chain (chain (chain (chain (chain (load_data rt (init path))
       display_summary) analyze_by_category) analyze_by_length) generate_insights)
       (plot_category_performance rt)) (plot_length_performance rt)"

section \<open>The engagement rate of one row\<close>

text \<open>
  The formula of the specification, \<open>round((likes + comments) / views * 100, 2)\<close>, on the
  int64 likes, comments and views of one row and in the arithmetic of numpy: the sum is
  an int64, the quotient and the product are float64, and \<open>round\<close> is numpy's.
\<close>

definition engagement_rate_of :: "int \<Rightarrow> int \<Rightarrow> int \<Rightarrow> cell" where
  "engagement_rate_of likes comments views =
     cell_round2
       (cell_mul (cell_div (cell_add (CInt likes) (CInt comments)) (CInt views)) (CInt 100))"

text \<open>
  A rational is moderate to \<open>k\<close> when it is 0 or lies between \<open>2^-k\<close> and \<open>2^k\<close> in
  magnitude: for small \<open>k\<close>, far from the overflow and the underflow of float64.
\<close>

definition moderate :: "int \<Rightarrow> rat \<Rightarrow> bool" where
  "moderate k x = (x = 0 \<or> (2 powi (- k) \<le> \<bar>x\<bar> \<and> \<bar>x\<bar> \<le> 2 powi k))"

section \<open>Example inputs\<close>

text \<open>
  A runtime whose file holds the given table, whose number parsers accept no string and
  whose drawing never raises; and a file with a title, views and likes, and no column
  for the duration.
\<close>

definition plain_runtime :: "dataframe \<Rightarrow> runtime" where
  "plain_runtime df =
     \<lparr>read_csv = (\<lambda>path. Inr df), int_of_float_str = Map.empty, num_of_str = Map.empty,
      render = Map.empty\<rparr>"

definition no_duration_csv :: dataframe where
  "no_duration_csv = [(''title'', [CStr ''A'']), (''views'', [CInt 100]), (''likes'', [CInt 10])]"

text \<open>A file whose views are 100 and \<open>inf\<close>: \<open>pd.read_csv\<close> reads a float64 column.\<close>

definition infinite_views_csv :: dataframe where
  "infinite_views_csv = [(''title'', [CStr ''A'', CStr ''B'']), (''views'', [CFloat 100, CPosInf])]"

text \<open>
  Five rows: for the filter a row without views, for the rounding a row whose rate is a
  tie in exact arithmetic (23 of 160 is 14.375 percent, and 14.37 in float64).
\<close>

definition five_rows_csv :: dataframe where
  "five_rows_csv =
     [(''views'', [CInt 100, CInt 0, CInt 50, CInt 160, CInt 7]),
      (''likes'', [CInt 10, CInt 1, CInt 5, CInt 23, CInt 20]),
      (''comments'', [CInt 5, CInt 1, CInt 0, CInt 0, CInt 3]),
      (''duration'', [CStr ''00:04:00'', CStr ''1:00'', CStr ''PT20M'', CStr ''2:05'', CStr ''PT1S''])]"

text \<open>
  The table \<open>load_data\<close> ends with on these rows. The rates are 15.0, 10.0, 14.37 and
  328.57, the minutes 4.0, 20.0, 2.08 and 0.02, each the float64 of that name.
\<close>

definition five_rows_loaded :: dataframe where
  "five_rows_loaded =
     [(''views'', [CInt 100, CInt 50, CInt 160, CInt 7]),
      (''likes'', [CInt 10, CInt 5, CInt 23, CInt 20]),
      (''comments'', [CInt 5, CInt 0, CInt 0, CInt 3]),
      (''duration'', [CInt 240, CInt 1200, CInt 125, CInt 1]),
      (''title'', [CInt 0, CInt 0, CInt 0, CInt 0]),
      (''category'', [CStr ''Unknown'', CStr ''Unknown'', CStr ''Unknown'', CStr ''Unknown'']),
      (''engagement_rate'',
       [CFloat 15, CFloat 10, CFloat (8089590830664253 / 562949953421312),
        CFloat (5780264568613765 / 17592186044416)]),
      (''duration_minutes'',
       [CFloat 4, CFloat 20, CFloat (1170935903116329 / 562949953421312),
        CFloat (5764607523034235 / 288230376151711744)]),
      (''length_category'',
       [CStr ''Short (0-5 min)'', CStr ''Long (15-30 min)'', CStr ''Short (0-5 min)'',
        CStr ''Short (0-5 min)''])]"

section \<open>Properties of the duration parser\<close>

lemma split_on_not_Nil: "split_on c s \<noteq> []"
  by (induction s) (auto split: list.splits)

lemma length_split_on: "length (split_on c s) = Suc (count_list s c)"
  by (induction s) (auto split: list.splits simp: split_on_not_Nil)

lemma those_map_hd:
  "those (map f xs) = Some ys \<Longrightarrow> xs \<noteq> [] \<Longrightarrow> ys \<noteq> [] \<and> f (hd xs) = Some (hd ys)"
  by (cases xs) (auto split: option.splits)

lemma those_map_length: "those (map f xs) = Some ys \<Longrightarrow> length ys = length xs"
  by (induction xs arbitrary: ys) (auto split: option.splits)

text \<open>
  C1. The claim is that the parser returns a non-negative integer and never raises, for
  every input with non-negative numeric components. The colon branch converts each part
  with \<open>int\<close> outside any \<open>try\<close>: at the string \<open>1:30.5\<close>, whose components are
  non-negative, the call ends in \<open>ValueError\<close> instead of an integer.
\<close>

theorem parse_duration_colon_raises:
  "parse_duration f (CStr ''1:30.5'') =
     Inl (ValueError ''invalid literal for int() with base 10'')"
  by code_simp

text \<open>
  The parser raises on a float infinity and in the colon branch, there exactly where a
  part is not an integer literal.
\<close>

lemma parse_duration_raises_iff:
  "(\<exists>e. parse_duration f c = Inl e) \<longleftrightarrow>
     c = CPosInf \<or> c = CNegInf \<or>
     (\<exists>s. c = CStr s \<and> CHR '':'' \<in> set (strip s) \<and>
          those (map py_int (split_on CHR '':'' (strip s))) = None)"
  by (cases c) (auto simp: parse_duration_def Let_def split: option.splits)

lemma trunc_nonneg: "0 \<le> x \<Longrightarrow> 0 \<le> trunc x"
  by (simp add: trunc_def)

lemma group_int_nonneg: "0 \<le> group_int g"
  by (simp add: group_int_def split: option.splits)

text \<open>
  Where the parser returns, the result is not negative when the number in the cell, the
  parts between the colons and the runtime's float conversion are not.
\<close>

lemma parse_duration_nonneg:
  assumes result: "parse_duration f c = Inr n"
    and int_cell: "\<And>m. c = CInt m \<Longrightarrow> 0 \<le> m"
    and float_cell: "\<And>x. c = CFloat x \<Longrightarrow> 0 \<le> x"
    and plain: "\<And>s m. f s = Some m \<Longrightarrow> 0 \<le> m"
    and parts: "\<And>s ps p. c = CStr s \<Longrightarrow>
                  those (map py_int (split_on CHR '':'' (strip s))) = Some ps \<Longrightarrow>
                  p \<in> set ps \<Longrightarrow> 0 \<le> p"
  shows "0 \<le> n"
proof (cases c)
  case CNull
  with result show ?thesis by (simp add: parse_duration_def)
next
  case (CInt m)
  with result int_cell show ?thesis by (simp add: parse_duration_def)
next
  case (CFloat x)
  with result float_cell show ?thesis by (auto simp: parse_duration_def trunc_nonneg)
next
  case CPosInf
  with result show ?thesis by (simp add: parse_duration_def)
next
  case CNegInf
  with result show ?thesis by (simp add: parse_duration_def)
next
  case (CStr s)
  show ?thesis
  proof (cases "CHR '':'' \<in> set (strip s)")
    case True
    with result CStr obtain ps where
      ps: "those (map py_int (split_on CHR '':'' (strip s))) = Some ps" and
      n: "n = (if length ps = 3 then ps ! 0 * 3600 + ps ! 1 * 60 + ps ! 2
               else if length ps = 2 then ps ! 0 * 60 + ps ! 1 else ps ! 0)"
      by (auto simp: parse_duration_def Let_def split: option.splits if_splits)
    have "ps \<noteq> []"
      using those_map_hd [OF ps split_on_not_Nil] by simp
    then have "0 < length ps" by simp
    moreover have "0 \<le> ps ! i" if "i < length ps" for i
      using parts [OF CStr ps, of "ps ! i"] that by simp
    ultimately show ?thesis
      unfolding n by auto
  next
    case False
    with result CStr show ?thesis
      using plain group_int_nonneg
      by (auto simp: parse_duration_def Let_def split: option.splits prod.splits)
  qed
qed

text \<open>
  C2. The seven examples of the specification: \<open>01:02:03\<close> is 3723 seconds, \<open>02:03\<close> is
  123, \<open>PT1H2M3S\<close> is 3723, \<open>PT5M\<close> is 300, \<open>PT\<close> is 0, a missing value is 0 and the
  number 90 is 90, whatever the runtime's float conversion does.
\<close>

theorem parse_duration_examples:
  "parse_duration f (CStr ''01:02:03'') = Inr 3723 \<and>
   parse_duration f (CStr ''02:03'') = Inr 123 \<and>
   parse_duration f (CStr ''PT1H2M3S'') = Inr 3723 \<and>
   parse_duration f (CStr ''PT5M'') = Inr 300 \<and>
   parse_duration f (CStr ''PT'') = Inr 0 \<and>
   parse_duration f CNull = Inr 0 \<and>
   parse_duration f (CInt 90) = Inr 90"
  by code_simp

text \<open>
  C8. A string with a colon whose parts all convert with \<open>int\<close>, and whose number of
  parts is neither 2 nor 3, is parsed to the integer of its first part alone. (A string
  with a colon always splits into two parts or more, see \<open>length_split_on\<close>, so the
  case in question is four parts or more.)
\<close>

theorem parse_duration_first_part:
  assumes colon: "CHR '':'' \<in> set (strip s)"
    and ints: "those (map py_int (split_on CHR '':'' (strip s))) = Some parts"
    and n2: "length parts \<noteq> 2" and n3: "length parts \<noteq> 3"
  shows "py_int (hd (split_on CHR '':'' (strip s))) = Some (hd parts) \<and>
         parse_duration f (CStr s) = Inr (hd parts)"
proof -
  have ne: "parts \<noteq> []"
    and first: "py_int (hd (split_on CHR '':'' (strip s))) = Some (hd parts)"
    using those_map_hd [OF ints split_on_not_Nil] by simp_all
  have "parse_duration f (CStr s) = Inr (parts ! 0)"
    using colon ints n2 n3 by (simp add: parse_duration_def)
  with ne first show ?thesis by (simp add: hd_conv_nth)
qed

theorem parse_duration_first_part_witness:
  "CHR '':'' \<in> set (strip ''7:2:3:4'') \<and>
   those (map py_int (split_on CHR '':'' (strip ''7:2:3:4''))) = Some [7, 2, 3, 4] \<and>
   parse_duration Map.empty (CStr ''7:2:3:4'') = Inr 7"
proof -
  have colon: "CHR '':'' \<in> set (strip ''7:2:3:4'')"
    by code_simp
  have ints: "those (map py_int (split_on CHR '':'' (strip ''7:2:3:4''))) = Some [7, 2, 3, 4]"
    by code_simp
  show ?thesis
    using colon ints parse_duration_first_part [OF colon ints, of Map.empty] by simp
qed

section \<open>Properties of the schema normalization\<close>

lemma column_mapping_fold:
  "fold (\<lambda>col m. case canonical_name col of Some c \<Rightarrow> m(col \<mapsto> c) | None \<Rightarrow> m) cols m0 c =
     (if c \<in> set cols then (case canonical_name c of Some x \<Rightarrow> Some x | None \<Rightarrow> m0 c) else m0 c)"
  by (induction cols arbitrary: m0) (auto split: option.splits)

lemma column_mapping_eq:
  "column_mapping cols c = (if c \<in> set cols then canonical_name c else None)"
  by (simp add: column_mapping_def column_mapping_fold split: option.splits)

lemma rename_columns_eq:
  "rename_columns (column_mapping (columns df)) df =
     map (\<lambda>(c, xs). (case canonical_name c of Some c' \<Rightarrow> c' | None \<Rightarrow> c, xs)) df"
  unfolding rename_columns_def
  by (rule map_cong) (auto simp: column_mapping_eq columns_def rev_image_eqI)

lemma nrows_rename [simp]: "nrows (rename_columns m df) = nrows df"
  by (cases df) (auto simp: nrows_def rename_columns_def)

lemma nrows_append_column: "nrows (df @ [(c, replicate (nrows df) x)]) = nrows df"
  by (cases df) (auto simp: nrows_def)

lemma ensure_column_eq:
  "ensure_column col df =
     (if col \<in> set (columns df) then df
      else df @ [(col, replicate (nrows df) (if col = ''category'' then CStr ''Unknown'' else CInt 0))])"
  by (simp add: ensure_column_def setitem_def)

lemma fold_ensure_column:
  "distinct cs \<Longrightarrow>
   fold ensure_column cs df =
     df @ map (\<lambda>c. (c, replicate (nrows df) (if c = ''category'' then CStr ''Unknown'' else CInt 0)))
            (filter (\<lambda>c. c \<notin> set (columns df)) cs)"
proof (induction cs arbitrary: df)
  case Nil
  then show ?case by simp
next
  case (Cons c cs)
  show ?case
  proof (cases "c \<in> set (columns df)")
    case True
    with Cons show ?thesis by (simp add: ensure_column_eq)
  next
    case False
    let ?d = "df @ [(c, replicate (nrows df) (if c = ''category'' then CStr ''Unknown'' else CInt 0))]"
    have n: "nrows ?d = nrows df" by (rule nrows_append_column)
    have f: "filter (\<lambda>x. x \<notin> set (columns ?d)) cs = filter (\<lambda>x. x \<notin> set (columns df)) cs"
      using Cons.prems by (auto simp: columns_def intro!: filter_cong)
    have "fold ensure_column (c # cs) df = fold ensure_column cs ?d"
      using False by (simp add: ensure_column_eq)
    also have "\<dots> = ?d @ map (\<lambda>c. (c, replicate (nrows ?d) (if c = ''category'' then CStr ''Unknown'' else CInt 0)))
            (filter (\<lambda>c. c \<notin> set (columns ?d)) cs)"
      using Cons.prems by (intro Cons.IH) simp
    finally show ?thesis using False by (simp add: n f)
  qed
qed

lemma distinct_required_cols: "distinct required_cols"
  by (simp add: required_cols_def)

lemma normalize_schema_eq:
  "normalize_schema df =
     rename_columns (column_mapping (columns df)) df @
     map (\<lambda>c. (c, replicate (nrows df) (if c = ''category'' then CStr ''Unknown'' else CInt 0)))
       (filter (\<lambda>c. c \<notin> set (columns (rename_columns (column_mapping (columns df)) df))) required_cols)"
  by (simp add: normalize_schema_def fold_ensure_column [OF distinct_required_cols])

lemma occurrences_append [simp]:
  "occurrences (df @ df') name = occurrences df name @ occurrences df' name"
  by (simp add: occurrences_def)

lemma occurrences_absent: "name \<notin> set (columns df) \<Longrightarrow> occurrences df name = []"
  by (force simp: occurrences_def columns_def filter_empty_conv)

lemma occurrences_defaults:
  "distinct cs \<Longrightarrow> col \<in> set cs \<Longrightarrow> P col \<Longrightarrow>
   occurrences (map (\<lambda>c. (c, g c)) (filter P cs)) col = [g col]"
  by (induction cs) (auto simp: occurrences_def filter_empty_conv)

text \<open>
  C5, as the code has it. A required column that no column of the input is renamed to is
  added by \<open>load_data\<close>, and nothing is raised: the new column holds \<open>Unknown\<close> in
  every row for \<open>category\<close> and the integer 0 in every row for each of the others,
  \<open>title\<close> included.
\<close>

theorem missing_columns_synthesized:
  assumes req: "col \<in> set required_cols"
    and absent: "col \<notin> set (columns (rename_columns (column_mapping (columns df)) df))"
  shows "getitem (normalize_schema df) col =
           Inr (Series (replicate (nrows df)
                  (if col = ''category'' then CStr ''Unknown'' else CInt 0)))"
proof -
  let ?r = "rename_columns (column_mapping (columns df)) df"
  let ?g = "\<lambda>c. replicate (nrows df) (if c = ''category'' then CStr ''Unknown'' else CInt 0)"
  have "occurrences (normalize_schema df) col =
          occurrences ?r col @
          occurrences (map (\<lambda>c. (c, ?g c)) (filter (\<lambda>c. c \<notin> set (columns ?r)) required_cols)) col"
    by (simp add: normalize_schema_eq)
  also have "\<dots> = [?g col]"
    using occurrences_absent [OF absent]
      occurrences_defaults [OF distinct_required_cols req, of "\<lambda>c. c \<notin> set (columns ?r)" ?g] absent
    by simp
  finally show ?thesis by (simp add: getitem_def)
qed

theorem missing_columns_synthesized_witness:
  "''title'' \<in> set required_cols \<and> ''category'' \<in> set required_cols \<and>
   getitem (normalize_schema [(''Views'', [CInt 10, CInt 0])]) ''title'' = Inr (Series [CInt 0, CInt 0]) \<and>
   getitem (normalize_schema [(''Views'', [CInt 10, CInt 0])]) ''category'' =
     Inr (Series [CStr ''Unknown'', CStr ''Unknown''])"
proof -
  let ?df = "[(''Views'', [CInt 10, CInt 0])]"
  have r: "rename_columns (column_mapping (columns ?df)) ?df = [(''views'', [CInt 10, CInt 0])]"
    by code_simp
  have t: "''title'' \<in> set required_cols" and c: "''category'' \<in> set required_cols"
    by (simp_all add: required_cols_def)
  have ta: "''title'' \<notin> set (columns (rename_columns (column_mapping (columns ?df)) ?df))"
    and ca: "''category'' \<notin> set (columns (rename_columns (column_mapping (columns ?df)) ?df))"
    unfolding r by (simp_all add: columns_def)
  have n: "nrows ?df = 2" by (simp add: nrows_def)
  show ?thesis
    using t c missing_columns_synthesized [OF t ta] missing_columns_synthesized [OF c ca]
    by (simp add: n numeral_2_eq_2)
qed

text \<open>
  The claim C5 says that a missing \<open>title\<close> is the empty string. It is the integer 0.
\<close>

theorem missing_title_is_zero_example:
  "getitem (normalize_schema [(''views'', [CInt 7])]) ''title'' = Inr (Series [CInt 0]) \<and>
   getitem (normalize_schema [(''views'', [CInt 7])]) ''title'' \<noteq> Inr (Series [CStr []])"
  by code_simp

lemma and_then_Inr: "and_then m f = Inr y \<longleftrightarrow> (\<exists>x. m = Inr x \<and> f x = Inr y)"
  by (cases m) (simp_all add: and_then_def)

lemma columns_setitem:
  "columns (setitem name xs df) =
     (if name \<in> set (columns df) then columns df else columns df @ [name])"
  by (auto simp: setitem_def columns_def split: prod.splits)

lemma columns_select_rows [simp]: "columns (select_rows keep df) = columns df"
  by (auto simp: select_rows_def columns_def)

lemma setitem_keeps: "c \<in> set (columns df) \<Longrightarrow> c \<in> set (columns (setitem name xs df))"
  by (simp add: columns_setitem)


lemma parse_durations_Inr:
  "parse_durations f df = Inr df' \<longleftrightarrow>
     (\<exists>xs ys. getitem df ''duration'' = Inr (Series xs) \<and>
        apply_series (parse_duration f) xs = Inr ys \<and> df' = setitem ''duration'' ys df)"
proof (cases "getitem df ''duration''")
  case (Inl e)
  then show ?thesis by (simp add: parse_durations_def and_then_def)
next
  case (Inr sel)
  then show ?thesis
    by (cases sel) (auto simp: parse_durations_def and_then_def split: sum.splits)
qed

lemma get_series_Inr: "get_series df name = Inr xs \<longleftrightarrow> getitem df name = Inr (Series xs)"
proof (cases "getitem df name")
  case (Inl e)
  then show ?thesis by (simp add: get_series_def and_then_def)
next
  case (Inr sel)
  then show ?thesis by (cases sel) (auto simp: get_series_def and_then_def)
qed

lemma coerce_count_Inr:
  "coerce_count g name df = Inr df' \<longleftrightarrow>
     (\<exists>xs nums ints. getitem df name = Inr (Series xs) \<and>
        to_numeric g (Series xs) = Inr nums \<and>
        astype_int (fillna (CInt 0) nums) = Inr ints \<and>
        df' = setitem name ints df)"
proof (cases "getitem df name")
  case (Inl e)
  then show ?thesis by (simp add: coerce_count_def and_then_def)
next
  case (Inr sel)
  then show ?thesis
    by (cases sel) (auto simp: coerce_count_def and_then_def to_numeric_def split: sum.splits)
qed

lemma coerce_count_keeps:
  "coerce_count g name df = Inr df' \<Longrightarrow> c \<in> set (columns df) \<Longrightarrow> c \<in> set (columns df')"
  by (auto simp: coerce_count_Inr setitem_keeps)

lemma parse_durations_keeps:
  "parse_durations f df = Inr df' \<Longrightarrow> c \<in> set (columns df) \<Longrightarrow> c \<in> set (columns df')"
  by (auto simp: parse_durations_Inr setitem_keeps)

lemma coerce_frame_keeps:
  "coerce_frame f g df = Inr df' \<Longrightarrow> c \<in> set (columns df) \<Longrightarrow> c \<in> set (columns df')"
  unfolding coerce_frame_def and_then_Inr
  by (blast intro: coerce_count_keeps parse_durations_keeps)

lemma filter_views_keeps:
  "filter_views df = Inr df' \<Longrightarrow> columns df' = columns df"
  by (auto simp: filter_views_def and_then_Inr)

lemma add_calculated_fields_keeps:
  "add_calculated_fields df = Inr df' \<Longrightarrow> c \<in> set (columns df) \<Longrightarrow> c \<in> set (columns df')"
  by (auto simp: add_calculated_fields_def add_engagement_rate_def add_duration_minutes_def
      add_length_category_def and_then_Inr setitem_keeps)

lemma load_frame_keeps:
  "load_frame f g df = Inr df' \<Longrightarrow> c \<in> set (columns (normalize_schema df)) \<Longrightarrow>
   c \<in> set (columns df')"
  unfolding load_frame_def and_then_Inr
  by (metis coerce_frame_keeps filter_views_keeps add_calculated_fields_keeps)

text \<open>
  C4, as the code has it. A column whose name matches no entry of the synonym table is
  not renamed and is not dropped: it stands under its own name, with its cells, in the
  table after the schema is normalized, and its name is a column of every table that
  \<open>load_data\<close> ends with.
\<close>

theorem unrecognized_column_kept:
  assumes unknown: "canonical_name col = None"
    and present: "(col, xs) \<in> set df"
  shows "(col, xs) \<in> set (normalize_schema df) \<and>
         (\<forall>df'. load_frame f g df = Inr df' \<longrightarrow> col \<in> set (columns df'))"
proof -
  have "(col, xs) \<in> set (rename_columns (column_mapping (columns df)) df)"
    using unknown present by (force simp: rename_columns_eq)
  then have kept: "(col, xs) \<in> set (normalize_schema df)"
    by (simp add: normalize_schema_eq)
  then have "col \<in> set (columns (normalize_schema df))"
    by (force simp: columns_def)
  with kept show ?thesis
    by (blast intro: load_frame_keeps)
qed

theorem unrecognized_column_kept_witness:
  "canonical_name ''rating'' = None \<and>
   (''rating'', [CInt 5, CInt 3]) \<in> set (normalize_schema [(''Views'', [CInt 10, CInt 0]), (''rating'', [CInt 5, CInt 3])]) \<and>
   load_frame Map.empty Map.empty [(''Views'', [CInt 10, CInt 0]), (''rating'', [CInt 5, CInt 3])] =
     Inr [(''views'', [CInt 10]), (''rating'', [CInt 5]), (''title'', [CInt 0]),
          (''category'', [CStr ''Unknown'']), (''likes'', [CInt 0]), (''comments'', [CInt 0]),
          (''duration'', [CInt 0]), (''engagement_rate'', [CFloat 0]),
          (''duration_minutes'', [CFloat 0]), (''length_category'', [CNull])] \<and>
   ''rating'' \<in> set (columns [(''views'', [CInt 10]), (''rating'', [CInt 5]), (''title'', [CInt 0]),
          (''category'', [CStr ''Unknown'']), (''likes'', [CInt 0]), (''comments'', [CInt 0]),
          (''duration'', [CInt 0]), (''engagement_rate'', [CFloat 0]),
          (''duration_minutes'', [CFloat 0]), (''length_category'', [CNull])])"
proof -
  have unknown: "canonical_name ''rating'' = None"
    by code_simp
  have present: "(''rating'', [CInt 5, CInt 3]) \<in> set [(''Views'', [CInt 10, CInt 0]), (''rating'', [CInt 5, CInt 3])]"
    by simp
  have run: "load_frame Map.empty Map.empty [(''Views'', [CInt 10, CInt 0]), (''rating'', [CInt 5, CInt 3])] =
     Inr [(''views'', [CInt 10]), (''rating'', [CInt 5]), (''title'', [CInt 0]),
          (''category'', [CStr ''Unknown'']), (''likes'', [CInt 0]), (''comments'', [CInt 0]),
          (''duration'', [CInt 0]), (''engagement_rate'', [CFloat 0]),
          (''duration_minutes'', [CFloat 0]), (''length_category'', [CNull])]"
    by code_simp
  show ?thesis
    using unknown run unrecognized_column_kept [OF unknown present, of Map.empty Map.empty]
    by blast
qed

text \<open>
  The claim C4 says that such a column is dropped. The column \<open>rating\<close> matches no
  synonym and is there after the normalization.
\<close>

theorem unrecognized_column_kept_example:
  "canonical_name ''rating'' = None \<and>
   normalize_schema [(''view_count'', [CInt 10]), (''rating'', [CInt 5])] =
     [(''views'', [CInt 10]), (''rating'', [CInt 5]), (''title'', [CInt 0]),
      (''category'', [CStr ''Unknown'']), (''likes'', [CInt 0]), (''comments'', [CInt 0]),
      (''duration'', [CInt 0])]"
  by code_simp

section \<open>Properties of the numeric coercion\<close>

lemma trunc_of_int [simp]: "trunc (of_int n) = n"
  by (simp add: trunc_def)

lemma getitem_Series: "getitem df name = Inr (Series xs) \<longleftrightarrow> occurrences df name = [xs]"
  by (auto simp: getitem_def split: list.splits)

lemma occurrences_replace:
  "occurrences (map (\<lambda>(c, ys). if c = name then (c, xs) else (c, ys)) df) m =
     (if m = name then map (\<lambda>ys. xs) (occurrences df name) else occurrences df m)"
  by (induction df) (auto simp: occurrences_def)

lemma occurrences_setitem:
  "occurrences (setitem name xs df) m =
     (if m = name then (if name \<in> set (columns df) then map (\<lambda>ys. xs) (occurrences df name) else [xs])
      else occurrences df m)"
  by (auto simp: setitem_def occurrences_replace occurrences_absent) (simp_all add: occurrences_def)

lemma occurrences_Cons_in_columns: "occurrences df name = xs # xss \<Longrightarrow> name \<in> set (columns df)"
  using occurrences_absent [of name df] by force

text \<open>
  C6. The claim is that the coercion raises nothing and sends every number it parsed to
  its truncation toward zero. A views column that holds an infinity is a float64 column:
  \<open>to_numeric\<close> and \<open>fillna(0)\<close> leave the infinity, \<open>astype(int)\<close> raises on it and
  \<open>load_data\<close> ends in that error. A float beyond int64, as \<open>1e30\<close>, is not truncated
  either: the cast gives \<open>-2^63\<close>.
\<close>

theorem coerce_count_raises:
  "coerce_count g ''views'' infinite_views_csv =
     Inl (ValueError ''Cannot convert non-finite values (NA or inf) to integer'') \<and>
   fst (load_data (plain_runtime infinite_views_csv) (init ''videos.csv'')) =
     Some (ValueError ''Cannot convert non-finite values (NA or inf) to integer'') \<and>
   coerce_count g ''views'' [(''views'', [CFloat (10 ^ 30)])] =
     Inr [(''views'', [CInt (- 9223372036854775808)])]"
  by code_simp

section \<open>Properties of the filter and the calculated fields\<close>

lemma take_rows_Cons [simp]:
  "take_rows (k # keep) (x # xs) = (if k then x # take_rows keep xs else take_rows keep xs)"
  by (simp add: take_rows_def)

lemma take_rows_Nil [simp]: "take_rows [] xs = []" "take_rows keep [] = []"
  by (simp_all add: take_rows_def)

lemma take_rows_map: "take_rows keep (map f xs) = map f (take_rows keep xs)"
proof (induction keep arbitrary: xs)
  case Nil
  then show ?case by simp
next
  case (Cons k keep)
  then show ?case by (cases xs) auto
qed

lemma take_rows_self: "take_rows (map p xs) xs = filter p xs"
  by (induction xs) auto

lemma length_take_rows:
  "length xs = length ys \<Longrightarrow> length (take_rows keep xs) = length (take_rows keep ys)"
proof (induction keep arbitrary: xs ys)
  case Nil
  then show ?case by simp
next
  case (Cons k keep)
  then show ?case
    by (cases xs; cases ys) auto
qed

lemma occurrences_select_rows:
  "occurrences (select_rows keep df) m = map (take_rows keep) (occurrences df m)"
  by (induction df) (auto simp: occurrences_def select_rows_def)

lemma occurrences_in: "occurrences df m = [xs] \<Longrightarrow> xs \<in> snd ` set df"
proof -
  assume "occurrences df m = [xs]"
  then have "xs \<in> set (occurrences df m)" by simp
  then show ?thesis by (auto simp: occurrences_def)
qed

lemma height_setitem:
  "\<forall>xs \<in> snd ` set df. length xs = n \<Longrightarrow> length ys = n \<Longrightarrow>
   \<forall>xs \<in> snd ` set (setitem name ys df). length xs = n"
  by (auto simp: setitem_def split: if_splits)

lemma rectangular_height: "rectangular df \<Longrightarrow> \<forall>xs \<in> snd ` set df. length xs = nrows df"
  by (auto simp: rectangular_def list_all_iff)

lemma height_normalize_schema:
  "rectangular df \<Longrightarrow> \<forall>xs \<in> snd ` set (normalize_schema df). length xs = nrows df"
  using rectangular_height [of df]
  by (auto simp: normalize_schema_eq rename_columns_eq)

lemma apply_series_result:
  "apply_series f xs = Inr ys \<Longrightarrow> \<exists>ns. ys = map CInt ns \<and> length ns = length xs"
proof (induction xs arbitrary: ys)
  case Nil
  then show ?case by simp
next
  case (Cons x xs)
  from Cons.prems obtain n zs where "f x = Inr n" "apply_series f xs = Inr zs" "ys = CInt n # zs"
    by (auto simp: and_then_Inr)
  moreover from Cons.IH [OF this(2)] obtain ns where "zs = map CInt ns" "length ns = length xs"
    by blast
  ultimately have "ys = map CInt (n # ns) \<and> length (n # ns) = length (x # xs)" by simp
  then show ?case by blast
qed

lemma height_parse_durations:
  assumes "parse_durations f df = Inr df'" and "\<forall>xs \<in> snd ` set df. length xs = n"
  shows "\<forall>xs \<in> snd ` set df'. length xs = n"
proof -
  from assms(1) obtain xs ys where xs: "getitem df ''duration'' = Inr (Series xs)"
    and ys: "apply_series (parse_duration f) xs = Inr ys"
    and df': "df' = setitem ''duration'' ys df"
    by (auto simp: parse_durations_Inr)
  have "length xs = n"
    using xs assms(2) occurrences_in [of df "''duration''" xs] by (auto simp: getitem_Series)
  moreover have "length ys = length xs"
    using apply_series_result [OF ys] by auto
  ultimately show ?thesis
    unfolding df' by (intro height_setitem [OF assms(2)]) simp
qed

lemma round_half_even_ge: "of_int N \<le> y \<Longrightarrow> N \<le> round_half_even y"
proof -
  assume "of_int N \<le> y"
  then have "N \<le> \<lfloor>y\<rfloor>" by (simp add: le_floor_iff)
  then show ?thesis
    by (auto simp: round_half_even_def Let_def)
qed

lemma round_half_even_le: "y \<le> of_int N \<Longrightarrow> round_half_even y \<le> N"
proof -
  assume le: "y \<le> of_int N"
  have "\<lfloor>y\<rfloor> \<le> N" using le by (simp add: floor_le_iff)
  moreover have "\<lfloor>y\<rfloor> + 1 \<le> N" if "y - of_int \<lfloor>y\<rfloor> \<ge> 1 / 2"
  proof -
    from that have "of_int \<lfloor>y\<rfloor> < y" by linarith
    with le have "of_int \<lfloor>y\<rfloor> < (of_int N :: rat)" by linarith
    then show ?thesis by simp
  qed
  ultimately show ?thesis
    by (auto simp: round_half_even_def Let_def)
qed

lemma exponent_bounds:
  assumes "x \<noteq> 0"
  shows "2 powi (exponent x) \<le> \<bar>x\<bar>" and "\<bar>x\<bar> < 2 powi (exponent x + 1)"
proof -
  obtain n d where q: "quotient_of \<bar>x\<bar> = (n, d)" by (cases "quotient_of \<bar>x\<bar>")
  then have d: "0 < d" and x: "\<bar>x\<bar> = of_int n / of_int d"
    using quotient_of_denom_pos quotient_of_div by blast+
  have n: "0 < n"
  proof (rule ccontr)
    assume "\<not> 0 < n"
    then have "n \<le> 0" by simp
    then have "of_int n / (of_int d :: rat) \<le> 0" using d by (simp add: divide_nonpos_pos)
    with x assms show False by simp
  qed
  define k where "k = bitlen n - bitlen d"
  have bn: "2 ^ nat (bitlen n - 1) \<le> n" "n < 2 ^ nat (bitlen n)"
    using bitlen_bounds [OF n] by simp_all
  have bd: "2 ^ nat (bitlen d - 1) \<le> d" "d < 2 ^ nat (bitlen d)"
    using bitlen_bounds [OF d] by simp_all
  have n1: "1 \<le> bitlen n" and d1: "1 \<le> bitlen d"
    using n d bitlen_eq_zero_iff [of n] bitlen_eq_zero_iff [of d] bitlen_nonneg [of n] bitlen_nonneg [of d]
    by linarith+
  have rn: "(2::rat) powi (bitlen n - 1) \<le> of_int n" "(of_int n :: rat) < 2 powi (bitlen n)"
  proof -
    have "(2::rat) powi (bitlen n - 1) = of_int (2 ^ nat (bitlen n - 1))"
      using n1 by (simp add: power_int_def)
    also have "\<dots> \<le> of_int n" using bn(1) by (simp only: of_int_le_iff)
    finally show "(2::rat) powi (bitlen n - 1) \<le> of_int n" .
    have "(2::rat) powi (bitlen n) = of_int (2 ^ nat (bitlen n))"
      using n1 by (simp add: power_int_def)
    moreover have "(of_int n :: rat) < of_int (2 ^ nat (bitlen n))"
      using bn(2) by (simp only: of_int_less_iff)
    ultimately show "(of_int n :: rat) < 2 powi (bitlen n)" by simp
  qed
  have rd: "(2::rat) powi (bitlen d - 1) \<le> of_int d" "(of_int d :: rat) < 2 powi (bitlen d)"
  proof -
    have "(2::rat) powi (bitlen d - 1) = of_int (2 ^ nat (bitlen d - 1))"
      using d1 by (simp add: power_int_def)
    also have "\<dots> \<le> of_int d" using bd(1) by (simp only: of_int_le_iff)
    finally show "(2::rat) powi (bitlen d - 1) \<le> of_int d" .
    have "(2::rat) powi (bitlen d) = of_int (2 ^ nat (bitlen d))"
      using d1 by (simp add: power_int_def)
    moreover have "(of_int d :: rat) < of_int (2 ^ nat (bitlen d))"
      using bd(2) by (simp only: of_int_less_iff)
    ultimately show "(of_int d :: rat) < 2 powi (bitlen d)" by simp
  qed
  have dpos: "(0::rat) < of_int d" using d by simp
  have lo: "2 powi (k - 1) \<le> \<bar>x\<bar>"
  proof -
    have "(2::rat) powi (k - 1) * of_int d \<le> 2 powi (k - 1) * 2 powi (bitlen d)"
      using rd(2) by (intro mult_left_mono) simp_all
    also have "\<dots> = 2 powi (bitlen n - 1)"
      by (simp add: k_def flip: power_int_add)
    also have "\<dots> \<le> of_int n" by (rule rn(1))
    finally show ?thesis using dpos by (simp add: x pos_le_divide_eq)
  qed
  have hi: "\<bar>x\<bar> < 2 powi (k + 1)"
  proof -
    have "of_int n < (2::rat) powi (bitlen n)" by (rule rn(2))
    also have "\<dots> = 2 powi (k + 1) * 2 powi (bitlen d - 1)"
      by (simp add: k_def flip: power_int_add)
    also have "\<dots> \<le> 2 powi (k + 1) * of_int d"
      using rd(1) by (intro mult_left_mono) simp_all
    finally show ?thesis using dpos by (simp add: x pos_divide_less_eq)
  qed
  have e: "exponent x = (if 2 powi k \<le> \<bar>x\<bar> then k else k - 1)"
    by (simp add: exponent_def q k_def Let_def)
  show "2 powi (exponent x) \<le> \<bar>x\<bar>"
    using lo by (simp add: e)
  show "\<bar>x\<bar> < 2 powi (exponent x + 1)"
    using hi by (auto simp: e)
qed


lemma exponent_range:
  assumes lo: "2 powi a \<le> \<bar>x\<bar>" and hi: "\<bar>x\<bar> \<le> 2 powi b"
  shows "a \<le> exponent x" and "exponent x \<le> b"
proof -
  have "\<not> (2::rat) powi a \<le> 0" by (simp add: not_le)
  with lo have nz: "x \<noteq> 0" by auto
  note eb = exponent_bounds [OF nz]
  show "exponent x \<le> b"
  proof (rule ccontr)
    assume "\<not> exponent x \<le> b"
    then have "(2::rat) powi b < 2 powi (exponent x)"
      by (intro power_int_strict_increasing) simp_all
    with eb(1) hi show False by linarith
  qed
  show "a \<le> exponent x"
  proof (rule ccontr)
    assume "\<not> a \<le> exponent x"
    then have "exponent x + 1 \<le> a" by simp
    then have "(2::rat) powi (exponent x + 1) \<le> 2 powi a"
      by (intro power_int_increasing) simp_all
    with eb(2) lo show False by linarith
  qed
qed

lemma round_to_double_finite:
  assumes lo: "2 powi (- 1000) \<le> \<bar>x\<bar>" and hi: "\<bar>x\<bar> \<le> 2 powi 1000"
  shows "\<exists>r. round_to_double x = CFloat r \<and> \<bar>x\<bar> / 2 \<le> \<bar>r\<bar> \<and> \<bar>r\<bar> \<le> 2 * \<bar>x\<bar> \<and> (0 < x \<longrightarrow> 0 < r)"
proof -
  have "\<not> (2::rat) powi (- 1000) \<le> 0" unfolding not_le by (rule zero_less_power_int) simp
  with lo have nz: "x \<noteq> 0" by auto
  define N :: int where "N = 2 ^ 52"
  define e where "e = exponent x"
  define ulp :: rat where "ulp = 2 powi (e - 52)"
  define m where "m = round_half_even (x / ulp)"
  have e: "- 1000 \<le> e" "e \<le> 1000"
    using exponent_range [OF lo hi] by (simp_all add: e_def)
  have eb: "2 powi e \<le> \<bar>x\<bar>" "\<bar>x\<bar> < 2 powi (e + 1)"
    using exponent_bounds [OF nz] by (simp_all add: e_def)
  have up: "0 < ulp" by (simp add: ulp_def)
  have p52: "2 powi e = of_int N * ulp"
    by (simp add: ulp_def power_int_diff N_def)
  have p53: "2 powi (e + 1) = of_int (2 * N) * ulp"
    by (simp add: ulp_def power_int_diff power_int_add N_def)
  have big: "\<bar>m\<bar> \<le> 2 * N \<Longrightarrow> e = 1023 \<Longrightarrow> False" using e by simp
  have val: "round_to_double x = CFloat (of_int m * ulp)"
    using nz e by (simp add: round_to_double_def Let_def e_def [symmetric] ulp_def m_def max_def)
  show ?thesis
  proof (cases "0 < x")
    case True
    then have ax: "\<bar>x\<bar> = x" by simp
    have "of_int N \<le> x / ulp"
      using eb(1) up unfolding ax p52 by (simp only: pos_le_divide_eq)
    then have m1: "N \<le> m" unfolding m_def by (rule round_half_even_ge)
    have "x / ulp \<le> of_int (2 * N)"
      using eb(2) up unfolding ax p53 by (simp only: pos_divide_le_eq less_imp_le)
    then have m2: "m \<le> 2 * N" unfolding m_def by (rule round_half_even_le)
    have r1: "2 powi e \<le> of_int m * ulp"
      unfolding p52 using m1 up by (intro mult_right_mono) (simp_all only: of_int_le_iff less_imp_le)
    have r2: "of_int m * ulp \<le> 2 powi (e + 1)"
      unfolding p53 using m2 up by (intro mult_right_mono) (simp_all only: of_int_le_iff less_imp_le)
    have h: "(2::rat) powi (e + 1) = 2 * 2 powi e"
      by (simp add: power_int_add)
    have "0 < of_int m * ulp" using r1 zero_less_power_int [of "2::rat" e] by linarith
    moreover have "\<bar>x\<bar> / 2 \<le> \<bar>of_int m * ulp\<bar>" using r1 eb(2) h by linarith
    moreover have "\<bar>of_int m * ulp\<bar> \<le> 2 * \<bar>x\<bar>" using r2 eb(1) h \<open>0 < of_int m * ulp\<close> by linarith
    ultimately show ?thesis using val by auto
  next
    case False
    with nz have neg: "x < 0" by simp
    then have ax: "\<bar>x\<bar> = - x" by simp
    have "x \<le> - (of_int N * ulp)"
      using eb(1) unfolding ax p52 by linarith
    then have "x / ulp \<le> of_int (- N)"
      using up by (simp add: pos_divide_le_eq)
    then have m1: "m \<le> - N" unfolding m_def by (rule round_half_even_le)
    have "- (of_int (2 * N) * ulp) \<le> x"
      using eb(2) unfolding ax p53 by linarith
    then have "of_int (- (2 * N)) \<le> x / ulp"
      using up by (simp add: pos_le_divide_eq)
    then have m2: "- (2 * N) \<le> m" unfolding m_def by (rule round_half_even_ge)
    have r1: "of_int m * ulp \<le> - (2 powi e)"
    proof -
      have "of_int m * ulp \<le> of_int (- N) * ulp"
        using m1 up by (intro mult_right_mono) (simp_all only: of_int_le_iff less_imp_le)
      then show ?thesis by (simp add: p52)
    qed
    have r2: "- (2 powi (e + 1)) \<le> of_int m * ulp"
    proof -
      have "of_int (- (2 * N)) * ulp \<le> of_int m * ulp"
        using m2 up by (intro mult_right_mono) (simp_all only: of_int_le_iff less_imp_le)
      then show ?thesis by (simp add: p53)
    qed
    have h: "(2::rat) powi (e + 1) = 2 * 2 powi e"
      by (simp add: power_int_add)
    have "of_int m * ulp < 0" using r1 zero_less_power_int [of "2::rat" e] by linarith
    moreover have "\<bar>x\<bar> / 2 \<le> \<bar>of_int m * ulp\<bar>" using r1 eb(2) h \<open>of_int m * ulp < 0\<close> by linarith
    moreover have "\<bar>of_int m * ulp\<bar> \<le> 2 * \<bar>x\<bar>" using r2 eb(1) h \<open>of_int m * ulp < 0\<close> by linarith
    ultimately show ?thesis using val neg by auto
  qed
qed


lemma moderate_mono: "moderate j x \<Longrightarrow> j \<le> k \<Longrightarrow> moderate k x"
proof -
  assume w: "moderate j x" and jk: "j \<le> k"
  have "(2::rat) powi (- k) \<le> 2 powi (- j)" "(2::rat) powi j \<le> 2 powi k"
    using jk by (simp_all add: power_int_increasing)
  with w show ?thesis
    unfolding moderate_def by linarith
qed

lemma moderate_round:
  assumes w: "moderate k x" and k: "0 \<le> k" "k \<le> 999"
  shows "\<exists>r. round_to_double x = CFloat r \<and> moderate (k + 1) r \<and> (0 < x \<longrightarrow> 0 < r)"
proof (cases "x = 0")
  case True
  then show ?thesis by (simp add: round_to_double_def moderate_def)
next
  case False
  with w have b: "2 powi (- k) \<le> \<bar>x\<bar>" "\<bar>x\<bar> \<le> 2 powi k"
    by (simp_all add: moderate_def)
  have "(2::rat) powi (- 1000) \<le> 2 powi (- k)" "(2::rat) powi k \<le> 2 powi 1000"
    using k by (intro power_int_increasing; simp)+
  with b have "2 powi (- 1000) \<le> \<bar>x\<bar>" "\<bar>x\<bar> \<le> 2 powi 1000" by linarith+
  from round_to_double_finite [OF this] obtain r where
    r: "round_to_double x = CFloat r" "\<bar>x\<bar> / 2 \<le> \<bar>r\<bar>" "\<bar>r\<bar> \<le> 2 * \<bar>x\<bar>" "0 < x \<longrightarrow> 0 < r"
    by blast
  have "(2::rat) powi (- k) = 2 powi (- (k + 1) + 1)" by simp
  also have "\<dots> = 2 powi (- (k + 1)) * 2" by (subst power_int_add) simp_all
  finally have h1: "(2::rat) powi (- (k + 1)) = 2 powi (- k) / 2" by simp
  have h2: "(2::rat) powi (k + 1) = 2 * 2 powi k"
    by (simp add: power_int_add)
  have "moderate (k + 1) r"
    unfolding moderate_def h1 h2 using r(2,3) b by (intro disjI2) linarith
  with r show ?thesis by blast
qed

lemma moderate_mult: "moderate j x \<Longrightarrow> moderate k y \<Longrightarrow> moderate (j + k) (x * y)"
proof (cases "x = 0 \<or> y = 0")
  case True
  then show ?thesis by (auto simp: moderate_def)
next
  case False
  assume "moderate j x" "moderate k y"
  with False have x: "2 powi (- j) \<le> \<bar>x\<bar>" "\<bar>x\<bar> \<le> 2 powi j"
    and y: "2 powi (- k) \<le> \<bar>y\<bar>" "\<bar>y\<bar> \<le> 2 powi k"
    by (simp_all add: moderate_def)
  have "(2::rat) powi (- (j + k)) = 2 powi (- j + - k)" by simp
  also have "\<dots> = 2 powi (- j) * 2 powi (- k)" by (subst power_int_add) simp_all
  finally have "(2::rat) powi (- (j + k)) = 2 powi (- j) * 2 powi (- k)" .
  also have "\<dots> \<le> \<bar>x\<bar> * \<bar>y\<bar>"
    using x(1) y(1) by (intro mult_mono) simp_all
  finally have lo: "2 powi (- (j + k)) \<le> \<bar>x * y\<bar>" by (simp add: abs_mult)
  have "\<bar>x\<bar> * \<bar>y\<bar> \<le> 2 powi j * 2 powi k"
    using x(2) y(2) by (intro mult_mono) simp_all
  then have hi: "\<bar>x * y\<bar> \<le> 2 powi (j + k)"
    by (simp add: abs_mult power_int_add)
  from lo hi show ?thesis by (simp add: moderate_def)
qed

lemma moderate_inverse: "moderate k y \<Longrightarrow> moderate k (inverse y)"
proof (cases "y = 0")
  case True
  then show ?thesis by (simp add: moderate_def)
next
  case False
  assume "moderate k y"
  with False have y: "2 powi (- k) \<le> \<bar>y\<bar>" "\<bar>y\<bar> \<le> 2 powi k"
    by (simp_all add: moderate_def)
  have ay: "0 < \<bar>y\<bar>" using False by simp
  have "inverse \<bar>y\<bar> \<le> inverse (2 powi (- k))"
    using y(1) by (intro le_imp_inverse_le) simp_all
  then have hi: "\<bar>inverse y\<bar> \<le> 2 powi k"
    by (simp add: power_int_minus)
  have "inverse (2 powi k) \<le> inverse \<bar>y\<bar>"
    using y(2) ay by (intro le_imp_inverse_le) simp_all
  then have lo: "2 powi (- k) \<le> \<bar>inverse y\<bar>"
    by (simp add: power_int_minus)
  from lo hi show ?thesis by (simp add: moderate_def)
qed

lemma moderate_div: "moderate j x \<Longrightarrow> moderate k y \<Longrightarrow> moderate (j + k) (x / y)"
  unfolding divide_inverse by (intro moderate_mult moderate_inverse)

lemma moderate_int:
  assumes "\<bar>n\<bar> \<le> 2 ^ nat k" and "0 \<le> k"
  shows "moderate k (of_int n)"
proof (cases "n = 0")
  case True
  then show ?thesis by (simp add: moderate_def)
next
  case False
  then have "1 \<le> \<bar>n\<bar>" by simp
  then have "(1::rat) \<le> \<bar>of_int n\<bar>" by (metis of_int_1 of_int_abs of_int_le_iff)
  moreover have "(2::rat) powi (- k) \<le> 1"
    using assms(2) by (simp add: power_int_minus inverse_le_1_iff one_le_power_int)
  moreover have "\<bar>of_int n :: rat\<bar> \<le> 2 powi k"
  proof -
    have "\<bar>of_int n :: rat\<bar> = of_int \<bar>n\<bar>" by simp
    also have "\<dots> \<le> of_int (2 ^ nat k)" using assms(1) by (simp only: of_int_le_iff)
    also have "\<dots> = 2 powi k" using assms(2) by (simp add: power_int_def)
    finally show ?thesis .
  qed
  ultimately show ?thesis unfolding moderate_def by (intro disjI2) linarith
qed


lemma wrap64_range: "in_int64 (wrap64 n)"
proof -
  have "0 \<le> (n + 2 ^ 63) mod (2 ^ 64 :: int)" "(n + 2 ^ 63) mod (2 ^ 64 :: int) < 2 ^ 64"
    by simp_all
  moreover have "(2 ^ 64 :: int) = 2 ^ 63 + 2 ^ 63" by simp
  ultimately show ?thesis
    unfolding in_int64_def wrap64_def by linarith
qed

lemma moderate_int64: "in_int64 n \<Longrightarrow> moderate 63 (of_int n)"
  by (rule moderate_int) (auto simp: in_int64_def)

lemma double_100: "round_to_double 100 = CFloat 100"
  by code_simp

lemma moderate_100: "moderate 7 100"
  by (simp add: moderate_def)

lemma engagement_rate_defined:
  assumes v: "0 < v" "in_int64 v"
  shows "\<exists>r m. engagement_rate_of l c v = CFloat r \<and> round_to_double (of_int m / 100) = CFloat r"
proof -
  define a where "a = wrap64 (l + c)"
  from moderate_round [OF moderate_int64 [OF wrap64_range [of "l + c"]]] obtain a' where
    a': "round_to_double (of_int a) = CFloat a'" "moderate 64 a'"
    by (auto simp: a_def)
  from moderate_round [OF moderate_int64 [OF v(2)]] v(1) obtain v' where
    v': "round_to_double (of_int v) = CFloat v'" "moderate 64 v'" "0 < v'"
    by auto
  from moderate_round [OF moderate_div [OF a'(2) v'(2)]] obtain q where
    q: "round_to_double (a' / v') = CFloat q" "moderate 129 q"
    by auto
  from moderate_round [OF moderate_mult [OF q(2) moderate_100]] obtain p where
    p: "round_to_double (q * 100) = CFloat p" "moderate 137 p"
    by auto
  from moderate_round [OF moderate_mult [OF p(2) moderate_100]] obtain y where
    y: "round_to_double (p * 100) = CFloat y" "moderate 145 y"
    by auto
  define m where "m = round_half_even y"
  have "\<bar>y\<bar> \<le> of_int (2 ^ 145)"
    using y(2) by (auto simp: moderate_def)
  then have yb: "y \<le> of_int (2 ^ 145)" "of_int (- (2 ^ 145)) \<le> y"
    by (simp_all add: abs_le_iff)
  have "m \<le> 2 ^ 145" "- (2 ^ 145) \<le> m"
    unfolding m_def using round_half_even_le [OF yb(1)] round_half_even_ge [OF yb(2)] by simp_all
  then have "moderate 145 (of_int m)"
    by (intro moderate_int) auto
  from moderate_round [OF moderate_div [OF this moderate_100]] obtain r where
    r: "round_to_double (of_int m / 100) = CFloat r"
    by auto
  have "v' \<noteq> 0" using v'(3) by simp
  then have div: "cell_div (cell_add (CInt l) (CInt c)) (CInt v) = CFloat q"
    by (simp add: cell_div_def cell_add_def to_double_def float_div_def a_def [symmetric] a' v' q)
  have mul: "cell_mul (CFloat q) (CInt 100) = CFloat p"
    by (simp add: cell_mul_def to_double_def float_mul_def double_100 p)
  have rnd: "cell_round2 (CFloat p) = CFloat r"
    by (simp add: cell_round2_def float_mul_def y rint_def m_def [symmetric] float_div_def r)
  have "engagement_rate_of l c v = CFloat r"
    by (simp add: engagement_rate_of_def div mul rnd)
  with r show ?thesis by blast
qed

lemma to_double_not_str: "to_double c \<noteq> CStr s" "CStr s \<noteq> to_double c"
  by (cases c; auto simp: to_double_def round_to_double_def Let_def)+

lemma parse_numeric_not_str: "parse_numeric g c \<noteq> CStr s" "CStr s \<noteq> parse_numeric g c"
  by (auto simp: parse_numeric_def split: cell.splits option.splits)

lemma to_numeric_Series:
  assumes "to_numeric g (Series xs) = Inr nums"
  shows "length nums = length xs" and "\<forall>c \<in> set nums. \<forall>s. c \<noteq> CStr s"
  using assms
  by (auto simp: to_numeric_def Let_def parse_numeric_not_str to_double_not_str split: if_splits)

lemma int64_of_int:
  assumes "\<not> non_finite c" and "\<forall>s. c \<noteq> CStr s"
  shows "\<exists>n. int64_of c = CInt n \<and> in_int64 n"
proof (cases c)
  case (CInt n)
  then show ?thesis by (simp add: int64_of_def wrap64_range)
next
  case (CFloat x)
  then show ?thesis by (simp add: int64_of_def in_int64_def)
qed (use assms in \<open>auto simp: non_finite_def\<close>)

lemma astype_int_Inr:
  assumes "astype_int ys = Inr ints" and "\<forall>c \<in> set ys. \<forall>s. c \<noteq> CStr s"
  shows "\<exists>ns. ints = map CInt ns \<and> length ns = length ys \<and> list_all in_int64 ns"
proof -
  from assms(1) have fin: "\<forall>c \<in> set ys. \<not> non_finite c" and ints: "ints = map int64_of ys"
    by (auto simp: astype_int_def list_ex_iff split: if_splits)
  have "\<exists>ns. map int64_of ys = map CInt ns \<and> length ns = length ys \<and> list_all in_int64 ns"
    using fin assms(2)
  proof (induction ys)
    case Nil
    then show ?case by simp
  next
    case (Cons y ys)
    then obtain ns where
      ns: "map int64_of ys = map CInt ns" "length ns = length ys" "list_all in_int64 ns"
      by auto
    from Cons.prems int64_of_int [of y] obtain n where n: "int64_of y = CInt n" "in_int64 n"
      by auto
    from ns n have "map int64_of (y # ys) = map CInt (n # ns) \<and>
        length (n # ns) = length (y # ys) \<and> list_all in_int64 (n # ns)"
      by simp
    then show ?case by blast
  qed
  with ints show ?thesis by simp
qed

lemma fillna_zero:
  "length (fillna (CInt 0) xs) = length xs"
  "\<forall>c \<in> set xs. \<forall>s. c \<noteq> CStr s \<Longrightarrow> \<forall>c \<in> set (fillna (CInt 0) xs). \<forall>s. c \<noteq> CStr s"
  by (auto simp: fillna_def to_double_not_str)

lemma coerce_count_ints:
  assumes "coerce_count g name df = Inr df'"
  shows "\<exists>xs ns. getitem df name = Inr (Series xs) \<and> length ns = length xs \<and>
           list_all in_int64 ns \<and> df' = setitem name (map CInt ns) df"
proof -
  from assms obtain xs nums ints where
    xs: "getitem df name = Inr (Series xs)" and
    nums: "to_numeric g (Series xs) = Inr nums" and
    ints: "astype_int (fillna (CInt 0) nums) = Inr ints" and
    df': "df' = setitem name ints df"
    by (auto simp: coerce_count_Inr)
  from astype_int_Inr [OF ints fillna_zero(2) [OF to_numeric_Series(2) [OF nums]]]
  obtain ns where "ints = map CInt ns" "length ns = length xs" "list_all in_int64 ns"
    by (auto simp: fillna_zero(1) to_numeric_Series(1) [OF nums])
  with xs df' show ?thesis by blast
qed

lemma height_coerce_count:
  assumes "coerce_count g name df = Inr df'" and "\<forall>xs \<in> snd ` set df. length xs = n"
  shows "\<forall>xs \<in> snd ` set df'. length xs = n"
proof -
  from coerce_count_ints [OF assms(1)] obtain xs ns where
    xs: "getitem df name = Inr (Series xs)" and len: "length ns = length xs" and
    df': "df' = setitem name (map CInt ns) df"
    by blast
  have "length xs = n"
    using xs assms(2) occurrences_in [of df name xs] by (auto simp: getitem_Series)
  then show ?thesis
    unfolding df' by (intro height_setitem [OF assms(2)]) (simp add: len)
qed

lemma coerce_count_column:
  assumes "coerce_count g name df = Inr df'"
  shows "\<exists>ns. occurrences df' name = [map CInt ns] \<and> list_all in_int64 ns"
proof -
  from coerce_count_ints [OF assms] obtain xs ns where
    xs: "getitem df name = Inr (Series xs)" and ns: "list_all in_int64 ns" and
    df': "df' = setitem name (map CInt ns) df"
    by blast
  have "occurrences df name = [xs]" using xs by (simp add: getitem_Series)
  then have "occurrences df' name = [map CInt ns]"
    unfolding df' by (simp add: occurrences_setitem occurrences_Cons_in_columns)
  with ns show ?thesis by blast
qed

lemma coerce_count_other:
  "coerce_count g name df = Inr df' \<Longrightarrow> m \<noteq> name \<Longrightarrow> occurrences df' m = occurrences df m"
  by (auto simp: coerce_count_Inr occurrences_setitem)

lemma parse_durations_other:
  "parse_durations f df = Inr df' \<Longrightarrow> m \<noteq> ''duration'' \<Longrightarrow> occurrences df' m = occurrences df m"
  by (auto simp: parse_durations_Inr occurrences_setitem)

lemma coerce_frame_result:
  assumes run: "coerce_frame f g d = Inr dfc" and h: "\<forall>xs \<in> snd ` set d. length xs = n"
  shows "\<exists>vc lc cc. occurrences dfc ''views'' = [map CInt vc] \<and> list_all in_int64 vc \<and>
           occurrences dfc ''likes'' = [map CInt lc] \<and>
           occurrences dfc ''comments'' = [map CInt cc]"
    and "\<forall>xs \<in> snd ` set dfc. length xs = n"
    and "occurrences dfc ''engagement_rate'' = occurrences d ''engagement_rate''"
proof -
  from run obtain d1 d2 d3 where
    s1: "coerce_count g ''views'' d = Inr d1" and
    s2: "coerce_count g ''likes'' d1 = Inr d2" and
    s3: "coerce_count g ''comments'' d2 = Inr d3" and
    s4: "parse_durations f d3 = Inr dfc"
    by (auto simp: coerce_frame_def and_then_Inr)
  from coerce_count_column [OF s1] obtain vc where
    "occurrences d1 ''views'' = [map CInt vc]" and vr: "list_all in_int64 vc" by blast
  then have v: "occurrences dfc ''views'' = [map CInt vc]"
    by (simp add: parse_durations_other [OF s4] coerce_count_other [OF s3] coerce_count_other [OF s2])
  from coerce_count_column [OF s2] obtain lc where "occurrences d2 ''likes'' = [map CInt lc]" by blast
  then have l: "occurrences dfc ''likes'' = [map CInt lc]"
    by (simp add: parse_durations_other [OF s4] coerce_count_other [OF s3])
  from coerce_count_column [OF s3] obtain cc where "occurrences d3 ''comments'' = [map CInt cc]" by blast
  then have c: "occurrences dfc ''comments'' = [map CInt cc]"
    by (simp add: parse_durations_other [OF s4])
  from v vr l c show "\<exists>vc lc cc. occurrences dfc ''views'' = [map CInt vc] \<and> list_all in_int64 vc \<and>
           occurrences dfc ''likes'' = [map CInt lc] \<and>
           occurrences dfc ''comments'' = [map CInt cc]"
    by blast
  show "\<forall>xs \<in> snd ` set dfc. length xs = n"
    by (rule height_parse_durations [OF s4 height_coerce_count [OF s3 height_coerce_count [OF s2
          height_coerce_count [OF s1 h]]]])
  show "occurrences dfc ''engagement_rate'' = occurrences d ''engagement_rate''"
    by (simp add: parse_durations_other [OF s4] coerce_count_other [OF s3]
        coerce_count_other [OF s2] coerce_count_other [OF s1])
qed


lemma canonical_name_range:
  "canonical_name c = Some x \<Longrightarrow>
   x \<in> {''title'', ''category'', ''views'', ''likes'', ''comments'', ''duration'', ''subscribers''}"
  by (auto simp: canonical_name_def Let_def split: if_splits)

lemma occurrences_rename_other:
  assumes "canonical_name m = None"
    and "m \<notin> {''title'', ''category'', ''views'', ''likes'', ''comments'', ''duration'', ''subscribers''}"
  shows "occurrences (rename_columns (column_mapping (columns df)) df) m = occurrences df m"
  unfolding rename_columns_eq
proof (induction df)
  case Nil
  then show ?case by (simp add: occurrences_def)
next
  case (Cons a df)
  obtain c xs where a: "a = (c, xs)" by (cases a)
  show ?case
  proof (cases "canonical_name c")
    case None
    with Cons a show ?thesis by (simp add: occurrences_def)
  next
    case (Some x)
    with canonical_name_range [OF Some] assms have "x \<noteq> m" "c \<noteq> m" by auto
    with Cons a Some show ?thesis by (simp add: occurrences_def)
  qed
qed

lemma occurrences_distinct: "distinct (columns df) \<Longrightarrow> length (occurrences df m) \<le> 1"
proof (induction df)
  case Nil
  then show ?case by (simp add: occurrences_def)
next
  case (Cons a df)
  then show ?case
    using occurrences_absent [of m df]
    by (cases a) (auto simp: occurrences_def columns_def)
qed

lemma occurrences_defaults_other:
  "m \<notin> set cs \<Longrightarrow> occurrences (map (\<lambda>c. (c, g c)) (filter P cs)) m = []"
  by (induction cs) (auto simp: occurrences_def)

lemma engagement_rate_unknown: "canonical_name ''engagement_rate'' = None"
  by code_simp

lemma occurrences_rate_normalize:
  "distinct (columns df) \<Longrightarrow>
   length (occurrences (normalize_schema df) ''engagement_rate'') \<le> 1"
proof -
  assume names: "distinct (columns df)"
  have "''engagement_rate'' \<notin> set required_cols"
    by (simp add: required_cols_def)
  then have "occurrences (normalize_schema df) ''engagement_rate'' =
               occurrences df ''engagement_rate''"
    by (simp add: normalize_schema_eq occurrences_rename_other engagement_rate_unknown
        occurrences_defaults_other)
  then show ?thesis
    using occurrences_distinct [OF names, of "''engagement_rate''"] by simp
qed

lemma occurrences_setitem_single:
  "length (occurrences df name) \<le> 1 \<Longrightarrow> occurrences (setitem name xs df) name = [xs]"
proof (cases "occurrences df name")
  case Nil
  assume "length (occurrences df name) \<le> 1"
  have "name \<notin> set (columns df)"
    using Nil by (force simp: occurrences_def columns_def filter_empty_conv)
  then show ?thesis by (simp add: occurrences_setitem)
next
  case (Cons ys yss)
  assume "length (occurrences df name) \<le> 1"
  with Cons have "occurrences df name = [ys]" by simp
  then show ?thesis
    by (simp add: occurrences_setitem occurrences_Cons_in_columns)
qed

lemma engagement_column:
  "map (\<lambda>(l, c, v). cell_round2 (cell_mul (cell_div (cell_add l c) v) (CInt 100)))
     (zip (map CInt ls) (zip (map CInt cs) (map CInt vs))) =
   map (\<lambda>(l, c, v). engagement_rate_of l c v) (zip ls (zip cs vs))"
proof -
  have "zip (map CInt ls) (zip (map CInt cs) (map CInt vs)) =
          map (\<lambda>(l, c, v). (CInt l, CInt c, CInt v)) (zip ls (zip cs vs))"
    by (simp add: zip_map_map zip_map2 zip_map1 split_def)
  then show ?thesis
    by (simp add: engagement_rate_of_def split_def)
qed

text \<open>
  C3. Let \<open>load_data\<close> complete on a table as \<open>pd.read_csv\<close> gives it (columns of one
  height, no label twice). The views it retains are the coerced views that are greater
  than 0, in their order: a row whose coerced views are 0 is dropped by the filter,
  which runs before the calculated fields. Views, likes and comments of the result are
  int64 columns of one height, and the engagement rate of each row is
  \<open>round((likes + comments) / views * 100, 2)\<close> of that row as numpy computes it. It is
  defined: a finite float64, and the float64 of a whole number of hundredths.
\<close>

theorem retained_records:
  assumes rect: "rectangular df" and names: "distinct (columns df)"
    and ok: "load_frame f g df = Inr df'"
  shows "\<exists>dfc vc vs ls cs.
           coerce_frame f g (normalize_schema df) = Inr dfc \<and>
           get_series dfc ''views'' = Inr (map CInt vc) \<and>
           vs = filter (\<lambda>v. 0 < v) vc \<and>
           get_series df' ''views'' = Inr (map CInt vs) \<and>
           get_series df' ''likes'' = Inr (map CInt ls) \<and>
           get_series df' ''comments'' = Inr (map CInt cs) \<and>
           length ls = length vs \<and> length cs = length vs \<and>
           get_series df' ''engagement_rate'' =
             Inr (map (\<lambda>(l, c, v). engagement_rate_of l c v) (zip ls (zip cs vs))) \<and>
           list_all
             (\<lambda>(l, c, v). \<exists>r m. engagement_rate_of l c v = CFloat r \<and>
                             round_to_double (of_int m / 100) = CFloat r)
             (zip ls (zip cs vs))"
proof -
  from ok obtain dfc dff where
    coerce: "coerce_frame f g (normalize_schema df) = Inr dfc" and
    filt: "filter_views dfc = Inr dff" and
    calc: "add_calculated_fields dff = Inr df'"
    by (auto simp: load_frame_def and_then_Inr)
  note res = coerce_frame_result [OF coerce height_normalize_schema [OF rect]]
  from res(1) obtain vc lc cc where
    vc: "occurrences dfc ''views'' = [map CInt vc]" and
    vr: "list_all in_int64 vc" and
    lc: "occurrences dfc ''likes'' = [map CInt lc]" and
    cc: "occurrences dfc ''comments'' = [map CInt cc]"
    by blast
  have len: "length lc = length vc" "length cc = length vc"
    using res(2) occurrences_in [OF vc] occurrences_in [OF lc] occurrences_in [OF cc]
    by (metis length_map)+
  define keep where "keep = map (\<lambda>v. cell_gt v 0) (map CInt vc)"
  define vs where "vs = filter (\<lambda>v. 0 < v) vc"
  define ls where "ls = take_rows keep lc"
  define cs where "cs = take_rows keep cc"
  have keep: "keep = map (\<lambda>v. 0 < v) vc"
    by (simp add: keep_def cell_gt_def num_def)
  have dff: "dff = select_rows keep dfc"
    using filt vc by (auto simp: filter_views_def and_then_Inr get_series_Inr getitem_Series keep_def)
  have vs_rows: "take_rows keep vc = vs"
    by (simp add: keep vs_def take_rows_self)
  have v1: "occurrences dff ''views'' = [map CInt vs]"
    by (simp add: dff occurrences_select_rows vc take_rows_map vs_rows)
  have l1: "occurrences dff ''likes'' = [map CInt ls]"
    by (simp add: dff occurrences_select_rows lc take_rows_map ls_def)
  have c1: "occurrences dff ''comments'' = [map CInt cs]"
    by (simp add: dff occurrences_select_rows cc take_rows_map cs_def)
  have lens: "length ls = length vs" "length cs = length vs"
    using length_take_rows [OF len(1), of keep] length_take_rows [OF len(2), of keep]
    by (simp_all add: ls_def cs_def vs_rows)
  have r1: "length (occurrences dff ''engagement_rate'') \<le> 1"
    using occurrences_rate_normalize [OF names]
    by (simp add: dff occurrences_select_rows res(3))
  let ?rate = "map (\<lambda>(l, c, v). engagement_rate_of l c v) (zip ls (zip cs vs))"
  from calc obtain d6 d7 where
    a1: "add_engagement_rate dff = Inr d6" and
    a2: "add_duration_minutes d6 = Inr d7" and
    a3: "add_length_category d7 = Inr df'"
    by (auto simp: add_calculated_fields_def and_then_Inr)
  have pos: "\<forall>v \<in> set vs. 0 < v \<and> in_int64 v"
    using vr by (auto simp: vs_def list_all_iff)
  have defined: "list_all
             (\<lambda>(l, c, v). \<exists>r m. engagement_rate_of l c v = CFloat r \<and>
                             round_to_double (of_int m / 100) = CFloat r)
             (zip ls (zip cs vs))"
    unfolding list_all_iff
  proof (intro ballI)
    fix row assume row: "row \<in> set (zip ls (zip cs vs))"
    obtain l c v where lcv: "row = (l, c, v)" by (cases row) auto
    with row have "v \<in> set vs" by (meson in_set_zipE)
    with pos have "0 < v" "in_int64 v" by auto
    from engagement_rate_defined [OF this] show
      "case row of (l, c, v) \<Rightarrow> \<exists>r m. engagement_rate_of l c v = CFloat r \<and>
                             round_to_double (of_int m / 100) = CFloat r"
      by (simp add: lcv)
  qed
  have d6: "d6 = setitem ''engagement_rate'' ?rate dff"
    using a1 v1 l1 c1
    by (auto simp: add_engagement_rate_def and_then_Inr get_series_Inr getitem_Series
        engagement_column)
  from a2 obtain ms where d7: "d7 = setitem ''duration_minutes'' ms d6"
    by (auto simp: add_duration_minutes_def and_then_Inr)
  from a3 obtain bs where df': "df' = setitem ''length_category'' bs d7"
    by (auto simp: add_length_category_def and_then_Inr)
  have "occurrences df' ''views'' = [map CInt vs]"
    and "occurrences df' ''likes'' = [map CInt ls]"
    and "occurrences df' ''comments'' = [map CInt cs]"
    and "occurrences df' ''engagement_rate'' = [?rate]"
    using v1 l1 c1 occurrences_setitem_single [OF r1, of ?rate]
    by (simp_all add: df' d7 d6 occurrences_setitem)
  then have "get_series df' ''views'' = Inr (map CInt vs)"
    and "get_series df' ''likes'' = Inr (map CInt ls)"
    and "get_series df' ''comments'' = Inr (map CInt cs)"
    and "get_series df' ''engagement_rate'' = Inr ?rate"
    by (simp_all add: get_series_Inr getitem_Series)
  moreover have "get_series dfc ''views'' = Inr (map CInt vc)"
    using vc by (simp add: get_series_Inr getitem_Series)
  ultimately show ?thesis
    using coerce lens vs_def defined by blast
qed

theorem retained_records_witness:
  "rectangular five_rows_csv \<and> distinct (columns five_rows_csv) \<and>
   load_frame Map.empty Map.empty five_rows_csv = Inr five_rows_loaded \<and>
   (\<exists>dfc vc vs ls cs.
      coerce_frame Map.empty Map.empty (normalize_schema five_rows_csv) = Inr dfc \<and>
      get_series dfc ''views'' = Inr (map CInt vc) \<and>
      vs = filter (\<lambda>v. 0 < v) vc \<and>
      get_series five_rows_loaded ''views'' = Inr (map CInt vs) \<and>
      get_series five_rows_loaded ''likes'' = Inr (map CInt ls) \<and>
      get_series five_rows_loaded ''comments'' = Inr (map CInt cs) \<and>
      length ls = length vs \<and> length cs = length vs \<and>
      get_series five_rows_loaded ''engagement_rate'' =
        Inr (map (\<lambda>(l, c, v). engagement_rate_of l c v) (zip ls (zip cs vs))) \<and>
      list_all
        (\<lambda>(l, c, v). \<exists>r m. engagement_rate_of l c v = CFloat r \<and>
                        round_to_double (of_int m / 100) = CFloat r)
        (zip ls (zip cs vs)))"
proof -
  have rect: "rectangular five_rows_csv"
    by code_simp
  have names: "distinct (columns five_rows_csv)"
    by code_simp
  have ok: "load_frame Map.empty Map.empty five_rows_csv = Inr five_rows_loaded"
    by code_simp
  show ?thesis
    using rect names ok retained_records [OF rect names ok] by blast
qed

text \<open>
  C7. In a column of minutes, 5.0 is in the bucket \<open>Short (0-5 min)\<close>, 5.01 in
  \<open>Medium (5-15 min)\<close>, 30.0 in \<open>Long (15-30 min)\<close> and 30.01 in
  \<open>Very Long (30+ min)\<close>; 0 is in no interval and its length category is missing.
\<close>

theorem length_category_boundaries:
  "add_length_category
     [(''duration_minutes'',
       [CFloat 5, CFloat (501 / 100), CFloat 30, CFloat (3001 / 100), CFloat 0])] =
   Inr [(''duration_minutes'',
          [CFloat 5, CFloat (501 / 100), CFloat 30, CFloat (3001 / 100), CFloat 0]),
        (''length_category'',
          [CStr ''Short (0-5 min)'', CStr ''Medium (5-15 min)'', CStr ''Long (15-30 min)'',
           CStr ''Very Long (30+ min)'', CNull])]"
  by code_simp

section \<open>Properties of the analyzer\<close>

text \<open>
  C9. The claim is that a method raises if and only if its prerequisite is missing. On a
  file without a duration column every duration is 0, so no row has a length category
  and the table of \<open>analyze_by_length\<close> has no rows. \<open>generate_insights\<close> then finds
  both tables set and raises the \<open>ValueError\<close> of \<open>idxmax\<close>: the script's own
  pipeline ends there.
\<close>

theorem insights_raise_example:
  "fst (run_analysis (plain_runtime no_duration_csv) ''videos.csv'') =
     Some (ValueError ''attempt to get argmax of an empty sequence'') \<and>
   category_stats (snd (run_analysis (plain_runtime no_duration_csv) ''videos.csv'')) \<noteq> None \<and>
   length_stats (snd (run_analysis (plain_runtime no_duration_csv) ''videos.csv'')) = Some [] \<and>
   fst (generate_insights (snd (run_analysis (plain_runtime no_duration_csv) ''videos.csv''))) =
     Some (ValueError ''attempt to get argmax of an empty sequence'')"
  by code_simp

text \<open>
  C10. Whenever one of the six methods raises, its precondition error included, the
  state it leaves is the state it was called on.
\<close>

theorem raising_leaves_state:
  assumes m: "m \<in> {analyze_by_category, analyze_by_length, display_summary,
                   plot_category_performance rt, plot_length_performance rt, generate_insights}"
    and raised: "fst (m self) = Some e"
  shows "snd (m self) = self"
proof -
  have "snd (analyze_by_category self) = self \<or> fst (analyze_by_category self) = None"
    by (simp add: analyze_by_category_def split: option.splits sum.splits)
  moreover have "snd (analyze_by_length self) = self \<or> fst (analyze_by_length self) = None"
    by (simp add: analyze_by_length_def split: option.splits sum.splits)
  moreover have "snd (display_summary self) = self"
    by (simp add: display_summary_def split: option.splits)
  moreover have "snd (plot_category_performance rt self) = self"
    by (simp add: plot_category_performance_def split: option.splits)
  moreover have "snd (plot_length_performance rt self) = self"
    by (simp add: plot_length_performance_def split: option.splits)
  moreover have "snd (generate_insights self) = self"
    by (simp add: generate_insights_def split: option.splits sum.splits)
  ultimately show ?thesis
    using m raised by auto
qed

theorem raising_leaves_state_witness:
  "fst (analyze_by_category (init ''videos.csv'')) =
     Some (ValueError ''Data not loaded. Call load_data() first.'') \<and>
   snd (analyze_by_category (init ''videos.csv'')) = init ''videos.csv''"
proof -
  have raised: "fst (analyze_by_category (init ''videos.csv'')) =
     Some (ValueError ''Data not loaded. Call load_data() first.'')"
    by code_simp
  show ?thesis
    using raised
      raising_leaves_state [of analyze_by_category "plain_runtime []" "init ''videos.csv''"
        "ValueError ''Data not loaded. Call load_data() first.''"]
    by simp
qed

text \<open>
  Each method raises its own precondition error where its prerequisite is missing.
\<close>

lemma sequencing_errors:
  "data self = None \<Longrightarrow>
     analyze_by_category self = (Some (ValueError ''Data not loaded. Call load_data() first.''), self) \<and>
     analyze_by_length self = (Some (ValueError ''Data not loaded. Call load_data() first.''), self) \<and>
     display_summary self = (Some (ValueError ''Data not loaded. Call load_data() first.''), self)"
  "category_stats self = None \<Longrightarrow>
     plot_category_performance rt self =
       (Some (ValueError ''Category analysis not done. Call analyze_by_category() first.''), self)"
  "length_stats self = None \<Longrightarrow>
     plot_length_performance rt self =
       (Some (ValueError ''Length analysis not done. Call analyze_by_length() first.''), self)"
  "category_stats self = None \<or> length_stats self = None \<Longrightarrow>
     generate_insights self =
       (Some (ValueError
          ''Complete analysis not done. Run analyze_by_category() and analyze_by_length() first.''),
        self)"
  by (auto simp: analyze_by_category_def analyze_by_length_def display_summary_def
      plot_category_performance_def plot_length_performance_def generate_insights_def
      split: option.splits)

end
